theory Spec2Isabelle
  imports Main
begin

section \<open>Data model\<close>

text \<open>
  The session coordination core of the full-app template consists of \<^verbatim>\<open>session.ts\<close>
  (class \<^verbatim>\<open>Session\<close>) and \<^verbatim>\<open>server.ts\<close> (the registry \<^verbatim>\<open>sessions\<close>, the SQLite table and
  the three websocket handlers). The Agent SDK stream behind \<^verbatim>\<open>aiClient.queryStream\<close> is
  the environment: what it yields, and when it ends or throws, are actions of the model.
\<close>

text \<open>Opaque JSON payloads that the code copies without inspecting them.\<close>

datatype json = JNull | JBool bool | JNum int | JStr string
  | JArr "json list" | JObj "(string \<times> json) list"

text \<open>
  A \<^verbatim>\<open>ServerWebSocket\<close>: a connection number together with \<^verbatim>\<open>ws.data.sessionId\<close>, fixed
  at upgrade time.
\<close>

type_synonym ws = "nat \<times> string"

text \<open>
  Messages of the SDK stream, as far as \<^verbatim>\<open>session.ts\<close> inspects them: \<^verbatim>\<open>message.type\<close>,
  \<^verbatim>\<open>message.subtype\<close>, and for assistant messages \<^verbatim>\<open>message.message.content\<close>, which is a
  string, an array of blocks, or anything else.
\<close>

datatype block =
    Text string
  | Tool_use string string json
  | Other_block string

datatype content = Str string | Blocks "block list" | Other_content

datatype sdk_message =
    Assistant content
  | Result string json json json
  | User json
  | System string string
  | Other_message string

text \<open>
  The objects handed to \<^verbatim>\<open>ws.send\<close> (after \<^verbatim>\<open>JSON.stringify\<close>), one constructor per shape.
  The fields are in the order of the object literal in the source; \<^verbatim>\<open>Result_success\<close>
  carries \<^verbatim>\<open>result\<close>, \<^verbatim>\<open>cost\<close>, \<^verbatim>\<open>duration\<close> and \<^verbatim>\<open>sessionId\<close>. The last two shapes are
  the unicast replies of \<^verbatim>\<open>server.ts\<close>, which carry no \<^verbatim>\<open>sessionId\<close>.
\<close>

datatype event =
    Assistant_message string string
  | Tool_use_event string string json string
  | Result_success json json json string
  | Result_failure string string
  | User_message json string
  | Error_event string string
  | Session_info string nat bool
  | Handler_error string
  | System_notice string

text \<open>
  The fields of a \<^verbatim>\<open>Session\<close> object. \<^verbatim>\<open>db\<close> and \<^verbatim>\<open>aiClient\<close> are handles shared by all
  sessions and live in the world below. A promise is named by the number of the engine
  invocation whose async body it is. The \<^verbatim>\<open>Set\<close> of subscribers is a duplicate-free list
  in insertion order, which is the order a JavaScript \<^verbatim>\<open>Set\<close> iterates in.
\<close>

record session =
  id' :: string
  queryPromise :: "nat option"
  subscribers :: "ws list"
  messageCount :: nat
  sdkSessionId :: "string option"

text \<open>A row of table \<^verbatim>\<open>sessions\<close>; the primary key \<^verbatim>\<open>id\<close> is the key of the map.\<close>

record row =
  session_id :: "string option"
  created_at :: nat
  last_active_at :: nat
  message_count :: nat

type_synonym database = "string \<Rightarrow> row option"

type_synonym wire = "ws \<Rightarrow> event list"

text \<open>What a method call evaluates to, where a claim depends on it.\<close>

datatype retval = Undefined | Boolean bool

section \<open>The methods of Session\<close>

text \<open>
  \<^verbatim>\<open>INSERT OR IGNORE INTO sessions VALUES (id, null, now, now, 0)\<close> and
  \<^verbatim>\<open>UPDATE sessions SET session_id, last_active_at, message_count WHERE id\<close>. In the
  model a statement always succeeds.
\<close>

definition insert_or_ignore :: "string \<Rightarrow> nat \<Rightarrow> database \<Rightarrow> database" where
  "insert_or_ignore i now d =
     (case d i of
        Some r \<Rightarrow> d
      | None \<Rightarrow> d(i \<mapsto> \<lparr>session_id = None, created_at = now,
                            last_active_at = now, message_count = 0\<rparr>))"

definition update_row :: "string \<Rightarrow> string option \<Rightarrow> nat \<Rightarrow> nat \<Rightarrow> database \<Rightarrow> database" where
  "update_row i tok now n d =
     (case d i of
        Some r \<Rightarrow> d(i \<mapsto> r\<lparr>session_id := tok, last_active_at := now, message_count := n\<rparr>)
      | None \<Rightarrow> d)"

text \<open>The constructor: field initialisers, then the insert. Nothing is read back.\<close>

definition new_session :: "string \<Rightarrow> nat \<Rightarrow> database \<Rightarrow> session \<times> database" where
  "new_session i now d =
     (\<lparr>id' = i, queryPromise = None, subscribers = [], messageCount = 0,
       sdkSessionId = None\<rparr>,
      insert_or_ignore i now d)"

text \<open>
  \<^verbatim>\<open>ws.send\<close>: appends to what the connection has received, or throws (\<open>None\<close>) when the
  connection is among the failing ones.
\<close>

definition send :: "ws set \<Rightarrow> ws \<Rightarrow> event \<Rightarrow> wire \<Rightarrow> wire option" where
  "send bad c m ob = (if c \<in> bad then None else Some (ob(c := ob c @ [m])))"

text \<open>
  \<^verbatim>\<open>broadcast\<close>: the \<^verbatim>\<open>for ... of this.subscribers\<close> loop with its \<^verbatim>\<open>try/catch\<close>. The loop
  only ever deletes the element it is visiting, so it visits the subscribers present at
  its start, in order.
\<close>

fun broadcast_loop :: "ws set \<Rightarrow> event \<Rightarrow> ws list \<Rightarrow> session \<times> wire \<Rightarrow> session \<times> wire" where
  "broadcast_loop bad m [] st = st"
| "broadcast_loop bad m (c # cs) st =
     (case send bad c m (snd st) of
        Some ob \<Rightarrow> broadcast_loop bad m cs (fst st, ob)
      | None \<Rightarrow>
          broadcast_loop bad m cs
            ((fst st)\<lparr>subscribers := removeAll c (subscribers (fst st))\<rparr>, snd st))"

definition broadcast :: "ws set \<Rightarrow> event \<Rightarrow> session \<times> wire \<Rightarrow> session \<times> wire" where
  "broadcast bad m st = broadcast_loop bad m (subscribers (fst st)) st"

definition broadcastError :: "ws set \<Rightarrow> string \<Rightarrow> session \<times> wire \<Rightarrow> session \<times> wire" where
  "broadcastError bad err st = broadcast bad (Error_event err (id' (fst st))) st"

text \<open>
  \<^verbatim>\<open>broadcastToSubscribers\<close>. \<open>block_message\<close> is the body of the loop over the blocks up to
  the test \<^verbatim>\<open>if (wsMessage)\<close>: the object built for the block, or null.
\<close>

fun block_message :: "string \<Rightarrow> block \<Rightarrow> event option" where
  "block_message i (Text t) = Some (Assistant_message t i)"
| "block_message i (Tool_use name tid inp) = Some (Tool_use_event name tid inp i)"
| "block_message i (Other_block ty) = None"

fun broadcast_blocks :: "ws set \<Rightarrow> block list \<Rightarrow> session \<times> wire \<Rightarrow> session \<times> wire" where
  "broadcast_blocks bad [] st = st"
| "broadcast_blocks bad (b # bs) st =
     (case block_message (id' (fst st)) b of
        Some m \<Rightarrow> broadcast_blocks bad bs (broadcast bad m st)
      | None \<Rightarrow> broadcast_blocks bad bs st)"

fun broadcastToSubscribers :: "ws set \<Rightarrow> sdk_message \<Rightarrow> session \<times> wire \<Rightarrow> session \<times> wire" where
  "broadcastToSubscribers bad (Assistant (Str c)) st =
     broadcast bad (Assistant_message c (id' (fst st))) st"
| "broadcastToSubscribers bad (Assistant (Blocks bs)) st = broadcast_blocks bad bs st"
| "broadcastToSubscribers bad (Assistant Other_content) st = st"
| "broadcastToSubscribers bad (Result subtype res cost dur) st =
     (if subtype = ''success''
      then broadcast bad (Result_success res cost dur (id' (fst st))) st
      else broadcast bad (Result_failure subtype (id' (fst st))) st)"
| "broadcastToSubscribers bad (User c) st = broadcast bad (User_message c (id' (fst st))) st"
| "broadcastToSubscribers bad (System subtype tok) st = st"
| "broadcastToSubscribers bad (Other_message ty) st = st"

text \<open>
  \<^verbatim>\<open>subscribe\<close>: \<^verbatim>\<open>Set.add\<close>, then the \<^verbatim>\<open>session_info\<close> unicast. A throwing \<^verbatim>\<open>send\<close> is not
  caught here; it ends the handler that called \<^verbatim>\<open>subscribe\<close>, after the add.
\<close>

definition subscribe :: "ws set \<Rightarrow> ws \<Rightarrow> session \<times> wire \<Rightarrow> session \<times> wire" where
  "subscribe bad c st =
     (let s = (fst st)\<lparr>subscribers :=
                 (if c \<in> set (subscribers (fst st)) then subscribers (fst st)
                  else subscribers (fst st) @ [c])\<rparr>
      in case send bad c (Session_info (id' s) (messageCount s) (queryPromise s \<noteq> None)) (snd st) of
           Some ob \<Rightarrow> (s, ob)
         | None \<Rightarrow> (s, snd st))"

text \<open>\<^verbatim>\<open>unsubscribe\<close> has no \<^verbatim>\<open>return\<close> statement.\<close>

definition unsubscribe :: "ws \<Rightarrow> session \<Rightarrow> retval \<times> session" where
  "unsubscribe c s = (Undefined, s\<lparr>subscribers := removeAll c (subscribers s)\<rparr>)"

definition hasSubscribers :: "session \<Rightarrow> bool" where
  "hasSubscribers s = (length (subscribers s) > 0)"

definition cleanup :: "session \<Rightarrow> session" where
  "cleanup s = s\<lparr>subscribers := []\<rparr>"

definition reset :: "session \<Rightarrow> session" where
  "reset s = s\<lparr>sdkSessionId := None, queryPromise := None, messageCount := 0\<rparr>"

section \<open>The server: registry, engine invocations, suspended calls, timers\<close>

text \<open>
  A promise created by \<^verbatim>\<open>addUserMessage\<close> is the promise of its async arrow function, whose
  body consumes one \<^verbatim>\<open>queryStream\<close>. Both are named by the index of the invocation in
  \<open>engine\<close>: \<open>owner\<close> is the \<^verbatim>\<open>Session\<close> object (\<^verbatim>\<open>this\<close> of the arrow function), \<open>prompt\<close> and
  \<open>resume\<close> are the arguments of \<^verbatim>\<open>queryStream\<close>, and the invocation is in flight until the
  \<^verbatim>\<open>finally\<close> block has run.
\<close>

datatype status = In_flight | Settled

record invocation =
  owner :: nat
  prompt :: string
  resume :: "string option"
  status :: status

text \<open>
  A call of \<^verbatim>\<open>addUserMessage\<close> is suspended either at \<^verbatim>\<open>await this.queryPromise\<close> before its
  turn (on which object, for which promise, with which content), or at the same
  expression after it has started its own turn; or it has returned.
\<close>

datatype call = Waiting nat nat string | Awaiting nat | Returned

text \<open>
  \<open>sessions\<close> is the \<^verbatim>\<open>Map\<close> of \<^verbatim>\<open>server.ts\<close>, from session id to object; \<open>heap\<close> holds the
  objects, an address being an index; a timer is its due time and the two variables its
  closure captured, \<^verbatim>\<open>session\<close> and \<^verbatim>\<open>sessionId\<close>. \<open>clock\<close> is \<^verbatim>\<open>Date.now()\<close>; \<open>failing\<close> are
  the connections whose \<^verbatim>\<open>send\<close> throws.
\<close>

record world =
  clock :: nat
  sessions :: "string \<Rightarrow> nat option"
  heap :: "session list"
  db :: database
  outbox :: wire
  failing :: "ws set"
  engine :: "invocation list"
  calls :: "call list"
  timers :: "(nat \<times> nat \<times> string) list"

definition init_world :: world where
  "init_world =
     \<lparr>clock = 0, sessions = (\<lambda>i. None), heap = [], db = (\<lambda>i. None), outbox = (\<lambda>c. []),
      failing = {}, engine = [], calls = [], timers = []\<rparr>"

text \<open>Running a method that touches the object at address \<open>a\<close> and the connections.\<close>

definition on_session :: "nat \<Rightarrow> (session \<times> wire \<Rightarrow> session \<times> wire) \<Rightarrow> world \<Rightarrow> world" where
  "on_session a f w =
     w\<lparr>heap := (heap w)[a := fst (f (heap w ! a, outbox w))],
       outbox := snd (f (heap w ! a, outbox w))\<rparr>"

definition in_flight :: "world \<Rightarrow> nat \<Rightarrow> bool" where
  "in_flight w q = (q < length (engine w) \<and> status (engine w ! q) = In_flight)"

definition settled :: "world \<Rightarrow> nat \<Rightarrow> bool" where
  "settled w q = (q < length (engine w) \<and> status (engine w ! q) = Settled)"

subsection \<open>addUserMessage, in the pieces between its suspension points\<close>

text \<open>
  \<^verbatim>\<open>this.sdkSessionId ? { resume: this.sdkSessionId } : {}\<close>; the empty string is falsy.
\<close>

definition query_options :: "session \<Rightarrow> string option" where
  "query_options s =
     (case sdkSessionId s of
        Some t \<Rightarrow> if t = [] then None else Some t
      | None \<Rightarrow> None)"

text \<open>
  From \<^verbatim>\<open>this.messageCount++\<close> to the assignment of \<^verbatim>\<open>this.queryPromise\<close>: the arrow function
  runs up to its first suspension inside \<^verbatim>\<open>for await\<close>, which starts the engine invocation.
\<close>

definition start_turn :: "nat \<Rightarrow> string \<Rightarrow> world \<Rightarrow> world" where
  "start_turn a c w =
     w\<lparr>heap := (heap w)[a := (heap w ! a)\<lparr>messageCount := messageCount (heap w ! a) + 1,
                                           queryPromise := Some (length (engine w))\<rparr>],
       engine := engine w @
         [\<lparr>owner = a, prompt = c,
           resume = query_options ((heap w ! a)\<lparr>messageCount := messageCount (heap w ! a) + 1\<rparr>),
           status = In_flight\<rparr>]\<rparr>"

text \<open>
  The call itself, up to its first suspension: \<^verbatim>\<open>if (this.queryPromise) await ...\<close>, a single
  test, and otherwise straight into the turn.
\<close>

definition addUserMessage :: "nat \<Rightarrow> string \<Rightarrow> world \<Rightarrow> world" where
  "addUserMessage a c w =
     (case queryPromise (heap w ! a) of
        Some p \<Rightarrow> w\<lparr>calls := calls w @ [Waiting a p c]\<rparr>
      | None \<Rightarrow> (start_turn a c w)\<lparr>calls := calls w @ [Awaiting (length (engine w))]\<rparr>)"

text \<open>
  A suspended call continues once the promise it awaits has settled. After the first
  \<^verbatim>\<open>await\<close> the code does not test \<^verbatim>\<open>this.queryPromise\<close> again.
\<close>

definition resume_call :: "nat \<Rightarrow> world \<Rightarrow> world option" where
  "resume_call k w =
     (if k < length (calls w) then
        (case calls w ! k of
           Waiting a p c \<Rightarrow>
             if settled w p
             then Some ((start_turn a c w)\<lparr>calls := (calls w)[k := Awaiting (length (engine w))]\<rparr>)
             else None
         | Awaiting q \<Rightarrow>
             if settled w q then Some (w\<lparr>calls := (calls w)[k := Returned]\<rparr>) else None
         | Returned \<Rightarrow> None)
      else None)"

text \<open>
  The body of the \<^verbatim>\<open>for await\<close> loop for one message: broadcast it, and on
  \<^verbatim>\<open>system/init\<close> capture the SDK session id and write the row.
\<close>

definition capture_init :: "nat \<Rightarrow> string \<Rightarrow> world \<Rightarrow> world" where
  "capture_init a tok w =
     w\<lparr>heap := (heap w)[a := (heap w ! a)\<lparr>sdkSessionId := Some tok\<rparr>],
       db := update_row (id' (heap w ! a)) (Some tok) (clock w)
               (messageCount (heap w ! a)) (db w)\<rparr>"

definition on_message :: "nat \<Rightarrow> sdk_message \<Rightarrow> world \<Rightarrow> world" where
  "on_message a m w =
     (case m of
        System subtype tok \<Rightarrow>
          if subtype = ''init''
          then capture_init a tok (on_session a (broadcastToSubscribers (failing w) m) w)
          else on_session a (broadcastToSubscribers (failing w) m) w
      | _ \<Rightarrow> on_session a (broadcastToSubscribers (failing w) m) w)"

text \<open>The \<^verbatim>\<open>finally\<close> block, after which the promise is resolved.\<close>

definition settle :: "nat \<Rightarrow> world \<Rightarrow> world" where
  "settle q w =
     w\<lparr>heap := (heap w)[owner (engine w ! q) :=
                  (heap w ! owner (engine w ! q))\<lparr>queryPromise := None\<rparr>],
       engine := (engine w)[q := (engine w ! q)\<lparr>status := Settled\<rparr>]\<rparr>"

text \<open>The three things the stream of invocation \<open>q\<close> can do: yield, throw, end.\<close>

definition stream_yield :: "nat \<Rightarrow> sdk_message \<Rightarrow> world \<Rightarrow> world option" where
  "stream_yield q m w =
     (if in_flight w q then Some (on_message (owner (engine w ! q)) m w) else None)"

definition stream_throw :: "nat \<Rightarrow> string \<Rightarrow> world \<Rightarrow> world option" where
  "stream_throw q err w =
     (if in_flight w q
      then Some (settle q (on_session (owner (engine w ! q)) (broadcastError (failing w) err) w))
      else None)"

definition stream_end :: "nat \<Rightarrow> world \<Rightarrow> world option" where
  "stream_end q w = (if in_flight w q then Some (settle q w) else None)"

subsection \<open>The websocket handlers and the timer callback\<close>

text \<open>A \<^verbatim>\<open>ws.send\<close> outside any \<^verbatim>\<open>try\<close>: when it throws, the handler ends there.\<close>

definition unicast :: "ws \<Rightarrow> event \<Rightarrow> world \<Rightarrow> world" where
  "unicast c m w =
     (case send (failing w) c m (outbox w) of
        Some ob \<Rightarrow> w\<lparr>outbox := ob\<rparr>
      | None \<Rightarrow> w)"

definition websocket_open :: "ws \<Rightarrow> world \<Rightarrow> world" where
  "websocket_open c w =
     (case sessions w (snd c) of
        Some a \<Rightarrow> on_session a (subscribe (failing w) c) w
      | None \<Rightarrow>
          on_session (length (heap w)) (subscribe (failing w) c)
            (w\<lparr>heap := heap w @ [fst (new_session (snd c) (clock w) (db w))],
               db := snd (new_session (snd c) (clock w) (db w)),
               sessions := (sessions w)(snd c \<mapsto> length (heap w))\<rparr>))"

text \<open>The parsed frame: \<^verbatim>\<open>data.type\<close> is \<^verbatim>\<open>'message'\<close>, \<^verbatim>\<open>'reset'\<close>, or something else.\<close>

datatype data = Message_data string | Reset_data | Other_data string

definition websocket_message :: "ws \<Rightarrow> data \<Rightarrow> world \<Rightarrow> world" where
  "websocket_message c d w =
     (case sessions w (snd c) of
        None \<Rightarrow> unicast c (Handler_error ''Session not found'') w
      | Some a \<Rightarrow>
          (case d of
             Message_data txt \<Rightarrow> addUserMessage a txt w
           | Reset_data \<Rightarrow>
               unicast c (System_notice ''Conversation reset'')
                 (w\<lparr>heap := (heap w)[a := reset (heap w ! a)]\<rparr>)
           | Other_data ty \<Rightarrow> w))"

definition websocket_close :: "ws \<Rightarrow> world \<Rightarrow> world" where
  "websocket_close c w =
     (case sessions w (snd c) of
        None \<Rightarrow> w
      | Some a \<Rightarrow>
          if \<not> hasSubscribers (snd (unsubscribe c (heap w ! a)))
          then w\<lparr>heap := (heap w)[a := snd (unsubscribe c (heap w ! a))],
                 timers := timers w @ [(clock w + 60000, a, snd c)]\<rparr>
          else w\<lparr>heap := (heap w)[a := snd (unsubscribe c (heap w ! a))]\<rparr>)"

text \<open>
  The callback of \<^verbatim>\<open>setTimeout\<close>, for the timer at position \<open>k\<close>, not before it is due. The
  callback tests the object it captured and deletes the registry entry of the id it
  captured.
\<close>

definition timer_fire :: "nat \<Rightarrow> world \<Rightarrow> world option" where
  "timer_fire k w =
     (if k < length (timers w) \<and> fst (timers w ! k) \<le> clock w then
        (case timers w ! k of
           (due, a, i) \<Rightarrow>
             if \<not> hasSubscribers (heap w ! a)
             then Some (w\<lparr>timers := take k (timers w) @ drop (Suc k) (timers w),
                          heap := (heap w)[a := cleanup (heap w ! a)],
                          sessions := (sessions w)(i := None)\<rparr>)
             else Some (w\<lparr>timers := take k (timers w) @ drop (Suc k) (timers w)\<rparr>))
      else None)"

subsection \<open>Executions\<close>

text \<open>
  JavaScript runs each handler and each continuation to its next suspension without
  interruption, so an execution is a sequence of such pieces. \<open>step\<close> is \<open>None\<close> where the
  piece cannot run in the given world.
\<close>

datatype action =
    Tick nat
  | Break ws
  | Open ws
  | Incoming ws data
  | Close ws
  | Fire nat
  | Yield nat sdk_message
  | Throw nat string
  | End nat
  | Resume nat

fun step :: "action \<Rightarrow> world \<Rightarrow> world option" where
  "step (Tick n) w = Some (w\<lparr>clock := clock w + n\<rparr>)"
| "step (Break c) w = Some (w\<lparr>failing := insert c (failing w)\<rparr>)"
| "step (Open c) w = Some (websocket_open c w)"
| "step (Incoming c d) w = Some (websocket_message c d w)"
| "step (Close c) w = Some (websocket_close c w)"
| "step (Fire k) w = timer_fire k w"
| "step (Yield q m) w = stream_yield q m w"
| "step (Throw q err) w = stream_throw q err w"
| "step (End q) w = stream_end q w"
| "step (Resume k) w = resume_call k w"

fun run :: "action list \<Rightarrow> world \<Rightarrow> world option" where
  "run [] w = Some w"
| "run (x # xs) w = (case step x w of Some w' \<Rightarrow> run xs w' | None \<Rightarrow> None)"

section \<open>Observations\<close>

text \<open>The fields of a session other than its subscriber set.\<close>

definition bookkeeping :: "session \<Rightarrow> string \<times> nat option \<times> nat \<times> string option" where
  "bookkeeping s = (id' s, queryPromise s, messageCount s, sdkSessionId s)"

text \<open>
  \<open>init_token\<close> is the test \<^verbatim>\<open>message.type === 'system' && message.subtype === 'init'\<close>,
  with the id the message carries.
\<close>

fun init_token :: "sdk_message \<Rightarrow> string option" where
  "init_token (System subtype tok) = (if subtype = ''init'' then Some tok else None)"
| "init_token m = None"

text \<open>
  A stream together with the time that passes before each of its messages, as the
  actions that deliver it to invocation \<open>q\<close>.
\<close>

fun stream_actions :: "nat \<Rightarrow> (nat \<times> sdk_message) list \<Rightarrow> action list" where
  "stream_actions q [] = []"
| "stream_actions q (x # xs) = Tick (fst x) # Yield q (snd x) # stream_actions q xs"

text \<open>
  The time that passes in an execution, and whether an action delivers an \<^verbatim>\<open>init\<close> message
  to invocation \<open>q\<close>.
\<close>

fun ticks :: "action list \<Rightarrow> nat" where
  "ticks [] = 0"
| "ticks (Tick n # xs) = n + ticks xs"
| "ticks (x # xs) = ticks xs"

fun init_of :: "nat \<Rightarrow> action \<Rightarrow> bool" where
  "init_of q (Yield q' m) = (q' = q \<and> init_token m \<noteq> None)"
| "init_of q x = False"

text \<open>
  What may not happen while the turn of invocation \<open>q\<close> runs, for the turn to be judged on
  its own: a reset frame for its coordinator, the start of another turn on its
  coordinator (by a message frame that finds it idle, or by a waiting call that
  continues), and an \<^verbatim>\<open>init\<close> message of another invocation of a coordinator with the same
  session id. Everything else may happen: connections open and close, timers fire,
  other sessions run, calls queue up behind the turn.
\<close>

fun disturbs :: "nat \<Rightarrow> world \<Rightarrow> action \<Rightarrow> bool" where
  "disturbs q w (Incoming c Reset_data) = (sessions w (snd c) = Some (owner (engine w ! q)))"
| "disturbs q w (Incoming c (Message_data m)) =
     (sessions w (snd c) = Some (owner (engine w ! q))
      \<and> queryPromise (heap w ! owner (engine w ! q)) = None)"
| "disturbs q w (Resume k) =
     (k < length (calls w)
      \<and> (case calls w ! k of
            Waiting b p m \<Rightarrow> b = owner (engine w ! q)
          | Awaiting p \<Rightarrow> False
          | Returned \<Rightarrow> False))"
| "disturbs q w (Yield q' m) =
     (q' \<noteq> q \<and> init_token m \<noteq> None
      \<and> id' (heap w ! owner (engine w ! q')) = id' (heap w ! owner (engine w ! q)))"
| "disturbs q w x = False"

fun undisturbed :: "nat \<Rightarrow> action list \<Rightarrow> world \<Rightarrow> bool" where
  "undisturbed q [] w = True"
| "undisturbed q (x # xs) w =
     (\<not> disturbs q w x
      \<and> (case step x w of Some w' \<Rightarrow> undisturbed q xs w' | None \<Rightarrow> True))"

text \<open>
  An execution in which no \<^verbatim>\<open>init\<close> message is delivered to an invocation of the
  coordinator at address \<open>a\<close>.
\<close>

fun no_init_for :: "nat \<Rightarrow> action list \<Rightarrow> world \<Rightarrow> bool" where
  "no_init_for a [] w = True"
| "no_init_for a (x # xs) w =
     ((case x of
         Yield q m \<Rightarrow> init_token m = None \<or> owner (engine w ! q) \<noteq> a
       | _ \<Rightarrow> True)
      \<and> (case step x w of Some w' \<Rightarrow> no_init_for a xs w' | None \<Rightarrow> True))"

text \<open>
  The invocations of the coordinator at address \<open>a\<close> that are in flight, and whether a call
  of \<^verbatim>\<open>addUserMessage\<close> on it is suspended before its turn.
\<close>

definition flights :: "world \<Rightarrow> nat \<Rightarrow> invocation list" where
  "flights w a = filter (\<lambda>i. status i = In_flight \<and> owner i = a) (engine w)"








section \<open>Example executions\<close>

text \<open>The first connection of \<^verbatim>\<open>s1\<close>, and its first message.\<close>

definition first_connection :: "action list" where
  "first_connection = [Open (0, ''s1'')]"

definition first_message :: "action list" where
  "first_message = [Open (0, ''s1''), Incoming (0, ''s1'') (Message_data ''hello'')]"

text \<open>
  The first turn of \<^verbatim>\<open>s1\<close> after its \<^verbatim>\<open>system/init\<close> message, and a first turn whose
  stream throws before it yields anything.
\<close>

definition turn_started :: "action list" where
  "turn_started =
     [Open (0, ''s1''), Incoming (0, ''s1'') (Message_data ''hello''),
      Yield 0 (System ''init'' ''abc'')]"

definition failed_first_turn :: "action list" where
  "failed_first_turn =
     [Open (0, ''s1''), Tick 5, Incoming (0, ''s1'') (Message_data ''hello''), Tick 5,
      Throw 0 ''boom'']"

text \<open>
  One complete turn on \<^verbatim>\<open>s1\<close>, after which the only connection closes and the timer fires;
  and the same followed by a new connection for \<^verbatim>\<open>s1\<close>.
\<close>

definition evicted_after_turn :: "action list" where
  "evicted_after_turn =
     [Open (0, ''s1''), Incoming (0, ''s1'') (Message_data ''hello''),
      Yield 0 (System ''init'' ''abc''), Yield 0 (Assistant (Str ''hi'')),
      Yield 0 (Result ''success'' (JStr ''hi'') (JNum 1) (JNum 20)), End 0, Resume 0,
      Close (0, ''s1''), Tick 60000, Fire 0]"

definition turn_then_reconnect :: "action list" where
  "turn_then_reconnect =
     [Open (0, ''s1''), Incoming (0, ''s1'') (Message_data ''hello''),
      Yield 0 (System ''init'' ''abc''), Yield 0 (Assistant (Str ''hi'')),
      Yield 0 (Result ''success'' (JStr ''hi'') (JNum 1) (JNum 20)), End 0, Resume 0,
      Close (0, ''s1''), Tick 60000, Fire 0, Open (1, ''s1'')]"

text \<open>
  The last subscriber of \<^verbatim>\<open>s1\<close> leaves at time 0 and a new one arrives 59 seconds later;
  two more seconds pass before the timer fires.
\<close>

definition closed_and_waiting :: "action list" where
  "closed_and_waiting = [Open (0, ''s1''), Close (0, ''s1''), Tick 59000]"

definition before_fire :: "action list" where
  "before_fire = closed_and_waiting @ [Open (1, ''s1''), Tick 2000]"

text \<open>
  The only subscriber leaves during a turn, the timer fires, and then the stream yields
  its \<^verbatim>\<open>init\<close> message.
\<close>

definition evicted_during_turn :: "action list" where
  "evicted_during_turn =
     [Open (0, ''s1''), Incoming (0, ''s1'') (Message_data ''hello''), Close (0, ''s1''),
      Tick 60000, Fire 0, Yield 0 (System ''init'' ''abc'')]"

text \<open>
  Two timers for the same coordinator: it is evicted by the first, a new coordinator for
  \<^verbatim>\<open>s1\<close> is created and subscribed to, and the second timer fires.
\<close>

definition stale_timer :: "action list" where
  "stale_timer =
     [Open (0, ''s1''), Close (0, ''s1''), Open (1, ''s1''), Tick 1, Close (1, ''s1''),
      Tick 59999, Fire 0, Open (2, ''s1''), Tick 1, Fire 0]"

text \<open>
  A reset while the first turn is waiting for its first message, which is the \<^verbatim>\<open>init\<close>
  message, and then a second message; and a late assistant message of a detached turn.
\<close>

definition reset_during_turn :: "action list" where
  "reset_during_turn =
     [Open (0, ''s1''), Incoming (0, ''s1'') (Message_data ''first''),
      Incoming (0, ''s1'') Reset_data, Yield 0 (System ''init'' ''abc''),
      Incoming (0, ''s1'') (Message_data ''second'')]"

definition late_message :: "action list" where
  "late_message = [Yield 0 (Assistant (Str ''late''))]"

text \<open>
  Messages for \<^verbatim>\<open>s1\<close> that arrive during the first turn: one that is still waiting; one
  that waits and then has its turn; two of them; and a reset between two messages.
\<close>

definition second_waiting :: "action list" where
  "second_waiting =
     [Open (0, ''s1''), Incoming (0, ''s1'') (Message_data ''a''),
      Incoming (0, ''s1'') (Message_data ''b'')]"


definition three_callers :: "action list" where
  "three_callers =
     [Open (0, ''s1''), Incoming (0, ''s1'') (Message_data ''a''),
      Incoming (0, ''s1'') (Message_data ''b''), Incoming (0, ''s1'') (Message_data ''c''),
      End 0, Resume 0, Resume 1, Resume 2]"


text \<open>
  A second message that has waited for the first turn of \<^verbatim>\<open>s1\<close>, which has just ended; and
  what happens during the turn of that message: its \<^verbatim>\<open>init\<close> after three milliseconds, a
  second connection that opens and closes, an assistant message.
\<close>

definition queued_call_ready :: "action list" where
  "queued_call_ready = second_waiting @ [End 0]"

definition busy_turn :: "action list" where
  "busy_turn =
     [Tick 3, Yield 1 (System ''init'' ''abc''), Open (1, ''s1''), Tick 2,
      Yield 1 (Assistant (Str ''hi'')), Close (1, ''s1'')]"

section \<open>Broadcasting\<close>

text \<open>
  What one run of the \<^verbatim>\<open>broadcast\<close> loop over the connections \<open>cs\<close> does: the failing
  ones among them leave the subscriber set, the others receive the message once.
\<close>

lemma broadcast_loop_eq:
  "distinct cs \<Longrightarrow>
   broadcast_loop bad m cs (s, ob) =
     (s\<lparr>subscribers := filter (\<lambda>c. \<not> (c \<in> set cs \<and> c \<in> bad)) (subscribers s)\<rparr>,
      (\<lambda>c. if c \<in> set cs \<and> c \<notin> bad then ob c @ [m] else ob c))"
proof (induction cs arbitrary: s ob)
  case Nil
  then show ?case by simp
next
  case (Cons c cs)
  from Cons.prems have d: "distinct cs" and n: "c \<notin> set cs" by simp_all
  show ?case
  proof (cases "c \<in> bad")
    case True
    have f: "filter (\<lambda>x. \<not> (x \<in> set cs \<and> x \<in> bad)) (removeAll c (subscribers s)) =
          filter (\<lambda>x. \<not> (x \<in> set (c # cs) \<and> x \<in> bad)) (subscribers s)"
      using True by (auto simp: removeAll_filter_not_eq intro!: filter_cong)
    have g: "(\<lambda>x. if x \<in> set cs \<and> x \<notin> bad then ob x @ [m] else ob x) =
          (\<lambda>x. if x \<in> set (c # cs) \<and> x \<notin> bad then ob x @ [m] else ob x)"
      using True by auto
    have "broadcast_loop bad m (c # cs) (s, ob) =
          broadcast_loop bad m cs (s\<lparr>subscribers := removeAll c (subscribers s)\<rparr>, ob)"
      using True by (simp add: send_def)
    also have "\<dots> = (s\<lparr>subscribers := filter (\<lambda>x. \<not> (x \<in> set cs \<and> x \<in> bad)) (removeAll c (subscribers s))\<rparr>,
         (\<lambda>x. if x \<in> set cs \<and> x \<notin> bad then ob x @ [m] else ob x))"
      by (simp add: Cons.IH [OF d])
    finally show ?thesis by (simp only: f g)
  next
    case False
    have f: "filter (\<lambda>x. \<not> (x \<in> set cs \<and> x \<in> bad)) (subscribers s) =
          filter (\<lambda>x. \<not> (x \<in> set (c # cs) \<and> x \<in> bad)) (subscribers s)"
      using False by (auto intro!: filter_cong)
    have g: "(\<lambda>x. if x \<in> set cs \<and> x \<notin> bad then (ob(c := ob c @ [m])) x @ [m] else (ob(c := ob c @ [m])) x) =
          (\<lambda>x. if x \<in> set (c # cs) \<and> x \<notin> bad then ob x @ [m] else ob x)"
      using False n by auto
    have "broadcast_loop bad m (c # cs) (s, ob) =
          broadcast_loop bad m cs (s, ob(c := ob c @ [m]))"
      using False by (simp add: send_def)
    also have "\<dots> = (s\<lparr>subscribers := filter (\<lambda>x. \<not> (x \<in> set cs \<and> x \<in> bad)) (subscribers s)\<rparr>,
         (\<lambda>x. if x \<in> set cs \<and> x \<notin> bad then (ob(c := ob c @ [m])) x @ [m] else (ob(c := ob c @ [m])) x))"
      by (simp only: Cons.IH [OF d])
    finally show ?thesis by (simp only: f g)
  qed
qed

lemma broadcast_eq:
  "distinct (subscribers s) \<Longrightarrow>
   broadcast bad m (s, ob) =
     (s\<lparr>subscribers := filter (\<lambda>c. c \<notin> bad) (subscribers s)\<rparr>,
      (\<lambda>c. if c \<in> set (subscribers s) \<and> c \<notin> bad then ob c @ [m] else ob c))"
  unfolding broadcast_def
  by (simp add: broadcast_loop_eq cong: filter_cong)

lemma broadcast_loop_frame:
  "id' (fst (broadcast_loop bad m cs st)) = id' (fst st) \<and>
   queryPromise (fst (broadcast_loop bad m cs st)) = queryPromise (fst st) \<and>
   messageCount (fst (broadcast_loop bad m cs st)) = messageCount (fst st) \<and>
   sdkSessionId (fst (broadcast_loop bad m cs st)) = sdkSessionId (fst st)"
  by (induction cs arbitrary: st) (simp_all split: option.split)

lemma broadcast_frame:
  "id' (fst (broadcast bad m st)) = id' (fst st)"
  "queryPromise (fst (broadcast bad m st)) = queryPromise (fst st)"
  "messageCount (fst (broadcast bad m st)) = messageCount (fst st)"
  "sdkSessionId (fst (broadcast bad m st)) = sdkSessionId (fst st)"
  by (simp_all add: broadcast_def broadcast_loop_frame)

lemma broadcast_blocks_fold:
  "broadcast_blocks bad bs st =
     fold (broadcast bad) (List.map_filter (block_message (id' (fst st))) bs) st"
proof (induction bs arbitrary: st)
  case Nil
  then show ?case by (simp add: List.map_filter_simps)
next
  case (Cons b bs)
  then show ?case
    by (cases "block_message (id' (fst st)) b")
       (simp_all add: List.map_filter_simps broadcast_frame)
qed

lemma map_filter_block_message:
  "List.map_filter (block_message i) bs =
     concat (map (\<lambda>b. case b of
                        Text t \<Rightarrow> [Assistant_message t i]
                      | Tool_use name tid inp \<Rightarrow> [Tool_use_event name tid inp i]
                      | Other_block ty \<Rightarrow> []) bs)"
  by (induction bs) (simp_all add: List.map_filter_simps split: block.split)

text \<open>
  C7. During a broadcast, a subscriber whose \<^verbatim>\<open>send\<close> throws is removed from the subscriber
  set by that failed attempt and gets nothing (there is no second attempt); every other
  subscriber receives the message exactly once, connections that are not subscribed
  receive nothing, and the other fields of the coordinator are unchanged.
\<close>

theorem broadcast_drops_failing_subscriber:
  assumes "distinct (subscribers s)"
  shows "subscribers (fst (broadcast bad m (s, ob))) = filter (\<lambda>c. c \<notin> bad) (subscribers s)
     \<and> snd (broadcast bad m (s, ob)) =
         (\<lambda>c. if c \<in> set (subscribers s) \<and> c \<notin> bad then ob c @ [m] else ob c)
     \<and> id' (fst (broadcast bad m (s, ob))) = id' s
     \<and> queryPromise (fst (broadcast bad m (s, ob))) = queryPromise s
     \<and> messageCount (fst (broadcast bad m (s, ob))) = messageCount s
     \<and> sdkSessionId (fst (broadcast bad m (s, ob))) = sdkSessionId s"
  using assms by (simp add: broadcast_eq)

text \<open>
  Three subscribers, of which the second fails: it is dropped, the third still receives
  the event.
\<close>

theorem broadcast_drops_failing_subscriber_witness:
  "subscribers (fst (broadcast {(1, ''s1'')} (Error_event ''boom'' ''s1'')
      (\<lparr>id' = ''s1'', queryPromise = None, subscribers = [(0, ''s1''), (1, ''s1''), (2, ''s1'')],
        messageCount = 1, sdkSessionId = None\<rparr>, \<lambda>c. []))) = [(0, ''s1''), (2, ''s1'')]
   \<and> snd (broadcast {(1, ''s1'')} (Error_event ''boom'' ''s1'')
      (\<lparr>id' = ''s1'', queryPromise = None, subscribers = [(0, ''s1''), (1, ''s1''), (2, ''s1'')],
        messageCount = 1, sdkSessionId = None\<rparr>, \<lambda>c. [])) (2, ''s1'') = [Error_event ''boom'' ''s1'']
   \<and> snd (broadcast {(1, ''s1'')} (Error_event ''boom'' ''s1'')
      (\<lparr>id' = ''s1'', queryPromise = None, subscribers = [(0, ''s1''), (1, ''s1''), (2, ''s1'')],
        messageCount = 1, sdkSessionId = None\<rparr>, \<lambda>c. [])) (1, ''s1'') = []"
  using broadcast_drops_failing_subscriber [of "\<lparr>id' = ''s1'', queryPromise = None, subscribers = [(0, ''s1''), (1, ''s1''), (2, ''s1'')],
        messageCount = 1, sdkSessionId = None\<rparr>" "{(1, ''s1'')}" "Error_event ''boom'' ''s1''" "\<lambda>c. []"]
  by simp

section \<open>Translation of the SDK stream\<close>

text \<open>
  C3, as amended. For an assistant message whose content is an array of blocks, the
  coordinator publishes one event for each text block (\<^verbatim>\<open>assistant_message\<close>) and one for
  each tool-use block (\<^verbatim>\<open>tool_use\<close>), in block order, and nothing for a block of any other
  type. A result message of subtype \<^verbatim>\<open>success\<close> is published as a successful result with
  the result, the cost and the duration of the message; a result message of any other
  subtype as a failed result whose error is the subtype.
\<close>

theorem broadcastToSubscribers_translation:
  "broadcastToSubscribers bad (Assistant (Blocks bs)) st =
     fold (broadcast bad)
       (concat (map (\<lambda>b. case b of
                        Text t \<Rightarrow> [Assistant_message t (id' (fst st))]
                      | Tool_use name tid inp \<Rightarrow> [Tool_use_event name tid inp (id' (fst st))]
                      | Other_block ty \<Rightarrow> []) bs)) st
   \<and> broadcastToSubscribers bad (Result ''success'' res cost dur) st =
       broadcast bad (Result_success res cost dur (id' (fst st))) st
   \<and> (subtype \<noteq> ''success'' \<longrightarrow>
       broadcastToSubscribers bad (Result subtype res cost dur) st =
         broadcast bad (Result_failure subtype (id' (fst st))) st)"
  by (simp add: broadcast_blocks_fold map_filter_block_message)

text \<open>A result message of subtype \<^verbatim>\<open>error_max_turns\<close>.\<close>

theorem broadcastToSubscribers_translation_witness:
  "''error_max_turns'' \<noteq> ''success'' \<and>
   broadcastToSubscribers {} (Result ''error_max_turns'' JNull JNull JNull)
     (\<lparr>id' = ''s1'', queryPromise = Some 0, subscribers = [], messageCount = 1,
       sdkSessionId = None\<rparr>, \<lambda>c. []) =
   broadcast {} (Result_failure ''error_max_turns'' ''s1'')
     (\<lparr>id' = ''s1'', queryPromise = Some 0, subscribers = [], messageCount = 1,
       sdkSessionId = None\<rparr>, \<lambda>c. [])"
  using broadcastToSubscribers_translation [of "{}" "[]" "(\<lparr>id' = ''s1'', queryPromise = Some 0, subscribers = [], messageCount = 1,
       sdkSessionId = None\<rparr>, \<lambda>c. [])" JNull JNull JNull "''error_max_turns''"]
  by simp

text \<open>
  C3 as stated fails: a message of two blocks, the first of type \<^verbatim>\<open>thinking\<close>, reaches a
  healthy subscriber as a single event.
\<close>

theorem one_event_per_block_counterexample:
  "snd (broadcastToSubscribers {} (Assistant (Blocks [Other_block ''thinking'', Text ''hi'']))
         (\<lparr>id' = ''s1'', queryPromise = Some 0, subscribers = [(0, ''s1'')],
           messageCount = 1, sdkSessionId = None\<rparr>, \<lambda>c. [])) (0, ''s1'')
     = [Assistant_message ''hi'' ''s1'']
   \<and> length (snd (broadcastToSubscribers {} (Assistant (Blocks [Other_block ''thinking'', Text ''hi'']))
         (\<lparr>id' = ''s1'', queryPromise = Some 0, subscribers = [(0, ''s1'')],
           messageCount = 1, sdkSessionId = None\<rparr>, \<lambda>c. [])) (0, ''s1''))
     \<noteq> length [Other_block ''thinking'', Text ''hi'']"
  by (simp add: broadcast_def send_def)

section \<open>Subscriber management\<close>

text \<open>
  C9, as amended. \<^verbatim>\<open>unsubscribe(connection)\<close> removes the connection from the subscriber
  set, leaves everything else as it is and evaluates to \<^verbatim>\<open>undefined\<close>; whether the set is
  now empty is what \<^verbatim>\<open>hasSubscribers()\<close> tells afterwards.
\<close>

theorem unsubscribe_returns_undefined:
  "fst (unsubscribe c s) = Undefined
   \<and> subscribers (snd (unsubscribe c s)) = filter (\<lambda>x. x \<noteq> c) (subscribers s)
   \<and> hasSubscribers (snd (unsubscribe c s)) = (set (subscribers s) - {c} \<noteq> {})
   \<and> id' (snd (unsubscribe c s)) = id' s
   \<and> queryPromise (snd (unsubscribe c s)) = queryPromise s
   \<and> messageCount (snd (unsubscribe c s)) = messageCount s
   \<and> sdkSessionId (snd (unsubscribe c s)) = sdkSessionId s"
  by (auto simp: unsubscribe_def hasSubscribers_def removeAll_filter_not_eq filter_empty_conv intro!: filter_cong)

text \<open>
  C9 as stated fails: removing the only subscriber does not evaluate to the boolean
  \<^verbatim>\<open>true\<close>.
\<close>

theorem unsubscribe_boolean_counterexample:
  "fst (unsubscribe (0, ''s1'')
         \<lparr>id' = ''s1'', queryPromise = None, subscribers = [(0, ''s1'')],
          messageCount = 0, sdkSessionId = None\<rparr>)
   \<noteq> Boolean (subscribers (snd (unsubscribe (0, ''s1'')
         \<lparr>id' = ''s1'', queryPromise = None, subscribers = [(0, ''s1'')],
          messageCount = 0, sdkSessionId = None\<rparr>)) = [])"
  by (simp add: unsubscribe_def)

section \<open>Frame lemmas for the world\<close>

lemmas model_defs =
  init_world_def websocket_open_def websocket_message_def websocket_close_def timer_fire_def
  new_session_def insert_or_ignore_def update_row_def on_session_def subscribe_def
  unsubscribe_def hasSubscribers_def cleanup_def reset_def send_def unicast_def
  addUserMessage_def start_turn_def query_options_def resume_call_def on_message_def
  capture_init_def settle_def stream_yield_def stream_throw_def stream_end_def
  in_flight_def settled_def broadcast_def broadcastError_def

lemma bookkeeping_fields:
  "bookkeeping s' = bookkeeping s \<Longrightarrow>
     id' s' = id' s \<and> queryPromise s' = queryPromise s \<and>
     messageCount s' = messageCount s \<and> sdkSessionId s' = sdkSessionId s"
  by (simp add: bookkeeping_def)

lemma bookkeeping_broadcast [simp]:
  "bookkeeping (fst (broadcast bad m st)) = bookkeeping (fst st)"
  by (simp add: bookkeeping_def broadcast_frame)

lemma bookkeeping_broadcast_blocks [simp]:
  "bookkeeping (fst (broadcast_blocks bad bs st)) = bookkeeping (fst st)"
  by (induction bs arbitrary: st) (simp_all split: option.split)

lemma bookkeeping_broadcastToSubscribers [simp]:
  "bookkeeping (fst (broadcastToSubscribers bad m st)) = bookkeeping (fst st)"
  by (induction bad m st rule: broadcastToSubscribers.induct) simp_all

lemma bookkeeping_broadcastError [simp]:
  "bookkeeping (fst (broadcastError bad err st)) = bookkeeping (fst st)"
  by (simp add: broadcastError_def)

lemma bookkeeping_subscribe [simp]:
  "bookkeeping (fst (subscribe bad c st)) = bookkeeping (fst st)"
  by (simp add: subscribe_def bookkeeping_def Let_def split: option.split)

lemma nth_update_total:
  "xs[i := x] ! j = (if i = j \<and> i < length xs then x else xs ! j)"
  by (cases "i < length xs") (simp_all add: nth_list_update list_update_beyond)

lemmas frame_simps [simp] =
  bookkeeping_fields [OF bookkeeping_broadcast]
  bookkeeping_fields [OF bookkeeping_broadcast_blocks]
  bookkeeping_fields [OF bookkeeping_broadcastToSubscribers]
  bookkeeping_fields [OF bookkeeping_broadcastError]
  bookkeeping_fields [OF bookkeeping_subscribe]

text \<open>
  A step changes the captured SDK session id of an object only when it is the \<^verbatim>\<open>init\<close>
  message of one of the object's invocations, or a reset frame for the object.
\<close>

lemma token_step:
  assumes "step x w = Some w'" and "a < length (heap w)"
    and "sdkSessionId (heap w' ! a) \<noteq> sdkSessionId (heap w ! a)"
  shows "(\<exists>q tok. x = Yield q (System ''init'' tok) \<and> in_flight w q \<and> owner (engine w ! q) = a)
       \<or> (\<exists>c. x = Incoming c Reset_data \<and> sessions w (snd c) = Some a)"
proof (cases x)
  case (Tick n)
  with assms show ?thesis by auto
next
  case (Break c)
  with assms show ?thesis by auto
next
  case (Open c)
  with assms show ?thesis
    by (auto simp: websocket_open_def on_session_def nth_update_total nth_append split: option.splits if_splits)
next
  case (Incoming c d)
  with assms show ?thesis
    by (auto simp: websocket_message_def unicast_def addUserMessage_def start_turn_def nth_update_total reset_def
        split: option.splits if_splits data.splits)
next
  case (Close c)
  with assms show ?thesis
    by (auto simp: websocket_close_def unsubscribe_def nth_update_total split: option.splits if_splits)
next
  case (Fire k)
  with assms show ?thesis
    by (auto simp: timer_fire_def cleanup_def nth_update_total split: option.splits if_splits prod.splits)
next
  case (Yield q m)
  with assms show ?thesis
    by (auto simp: stream_yield_def on_message_def capture_init_def on_session_def nth_update_total
        split: option.splits if_splits sdk_message.splits)
next
  case (Throw q err)
  with assms show ?thesis
    by (auto simp: stream_throw_def settle_def on_session_def nth_update_total split: option.splits if_splits)
next
  case (End q)
  with assms show ?thesis
    by (auto simp: stream_end_def settle_def nth_update_total split: option.splits if_splits)
next
  case (Resume k)
  with assms show ?thesis
    by (auto simp: resume_call_def start_turn_def nth_update_total split: option.splits if_splits call.splits)
qed

lemma open_new:
  assumes "sessions w (snd c) = None" and "db w (snd c) = Some r"
  shows "sessions (websocket_open c w) (snd c) = Some (length (heap w))"
    and "db (websocket_open c w) = db w"
    and "sdkSessionId (heap (websocket_open c w) ! length (heap w)) = None"
    and "messageCount (heap (websocket_open c w) ! length (heap w)) = 0"
  using assms
  by (simp_all add: websocket_open_def on_session_def new_session_def insert_or_ignore_def)

lemma broadcast_loop_subscribers:
  "subscribers (fst (broadcast_loop bad m cs (s, ob))) =
     filter (\<lambda>c. \<not> (c \<in> set cs \<and> c \<in> bad)) (subscribers s)"
proof (induction cs arbitrary: s ob)
  case Nil
  then show ?case by simp
next
  case (Cons c cs)
  then show ?case
    by (cases "c \<in> bad")
       (auto simp: send_def removeAll_filter_not_eq intro!: filter_cong)
qed

lemma broadcast_loop_wire:
  "snd (broadcast_loop bad m cs (s, ob)) = snd (broadcast_loop bad m cs (s', ob))"
  by (induction cs arbitrary: s s' ob) (simp_all split: option.split)

lemma broadcast_reset:
  "snd (broadcast bad m (reset s, ob)) = snd (broadcast bad m (s, ob))"
  "subscribers (fst (broadcast bad m (reset s, ob))) = subscribers (fst (broadcast bad m (s, ob)))"
  using broadcast_loop_wire [of bad m "subscribers s" "reset s" ob s]
  by (simp_all add: broadcast_def reset_def broadcast_loop_subscribers)

lemma map_update_same:
  "f y = f (xs ! i) \<Longrightarrow> map f (xs[i := y]) = map f xs"
  by (cases "i < length xs") (simp_all add: map_update list_update_same_conv list_update_beyond)

section \<open>Construction and reset\<close>

text \<open>
  C8, as amended. When the registry constructs a coordinator for a session id that
  already has a durable record, construction leaves the record as it is and reads
  nothing back: the new coordinator is registered with no continuation token and a
  message count of zero, whatever the record holds. During the life of a coordinator
  its token changes only on a turn-start (\<^verbatim>\<open>system/init\<close>) message of one of its own
  invocations or on an explicit reset.
\<close>

theorem constructor_never_loads_record:
  "(sessions w (snd c) = None \<and> db w (snd c) = Some r \<longrightarrow>
      sessions (websocket_open c w) (snd c) = Some (length (heap w))
    \<and> db (websocket_open c w) = db w
    \<and> sdkSessionId (heap (websocket_open c w) ! length (heap w)) = None
    \<and> messageCount (heap (websocket_open c w) ! length (heap w)) = 0)
   \<and> (step x v = Some v' \<and> a < length (heap v)
        \<and> sdkSessionId (heap v' ! a) \<noteq> sdkSessionId (heap v ! a) \<longrightarrow>
      (\<exists>q tok. x = Yield q (System ''init'' tok) \<and> in_flight v q \<and> owner (engine v ! q) = a)
       \<or> (\<exists>c'. x = Incoming c' Reset_data \<and> sessions v (snd c') = Some a))"
  using open_new [of w c r] token_step [of x v v' a] by blast

text \<open>
  The first part at the world in which \<^verbatim>\<open>s1\<close> has been evicted after one turn, the second
  at a reset during a turn.
\<close>

theorem constructor_never_loads_record_witness:
  "(sessions (the (run evicted_after_turn init_world)) ''s1'' = None
    \<and> db (the (run evicted_after_turn init_world)) ''s1'' =
       Some \<lparr>session_id = Some ''abc'', created_at = 0, last_active_at = 0, message_count = 1\<rparr>
    \<and> sdkSessionId (heap (websocket_open (1, ''s1'') (the (run evicted_after_turn init_world))) ! 1) = None
    \<and> messageCount (heap (websocket_open (1, ''s1'') (the (run evicted_after_turn init_world))) ! 1) = 0)
   \<and> (step (Incoming (0, ''s1'') Reset_data) (the (run turn_started init_world)) =
         Some (websocket_message (0, ''s1'') Reset_data (the (run turn_started init_world)))
    \<and> sdkSessionId (heap (the (run turn_started init_world)) ! 0) = Some ''abc''
    \<and> sdkSessionId (heap (websocket_message (0, ''s1'') Reset_data (the (run turn_started init_world))) ! 0) = None
    \<and> sessions (the (run turn_started init_world)) ''s1'' = Some 0)"
  using constructor_never_loads_record [of "the (run evicted_after_turn init_world)" "(1, ''s1'')"
      "\<lparr>session_id = Some ''abc'', created_at = 0, last_active_at = 0, message_count = 1\<rparr>"
      "Incoming (0, ''s1'') Reset_data" "the (run turn_started init_world)"
      "websocket_message (0, ''s1'') Reset_data (the (run turn_started init_world))" 0]
  by (simp add: evicted_after_turn_def turn_started_def model_defs)

text \<open>
  C8 as stated fails: after a turn, eviction and a new connection, the record of \<^verbatim>\<open>s1\<close>
  holds the token \<^verbatim>\<open>abc\<close> and the count 1, and the newly constructed coordinator holds
  neither.
\<close>

theorem reconnect_after_eviction_counterexample:
  "run turn_then_reconnect init_world \<noteq> None
   \<and> sessions (the (run turn_then_reconnect init_world)) ''s1'' = Some 1
   \<and> db (the (run turn_then_reconnect init_world)) ''s1'' =
       Some \<lparr>session_id = Some ''abc'', created_at = 0, last_active_at = 0, message_count = 1\<rparr>
   \<and> sdkSessionId (heap (the (run turn_then_reconnect init_world)) ! 1) = None
   \<and> messageCount (heap (the (run turn_then_reconnect init_world)) ! 1) = 0"
  by (simp add: turn_then_reconnect_def model_defs)

text \<open>
  C10. \<^verbatim>\<open>reset()\<close> leaves the subscriber set and the id of the coordinator alone, and the
  reset frame leaves the database, the registry and every subscriber set alone. A
  broadcast after the reset reaches the same connections, and drops the same ones, as
  it would have without the reset; a healthy subscriber from before the reset receives
  the event and stays subscribed.
\<close>

theorem reset_keeps_subscribers_and_row:
  "subscribers (reset s) = subscribers s
   \<and> id' (reset s) = id' s
   \<and> db (websocket_message c Reset_data w) = db w
   \<and> map subscribers (heap (websocket_message c Reset_data w)) = map subscribers (heap w)
   \<and> sessions (websocket_message c Reset_data w) = sessions w
   \<and> snd (broadcast bad m (reset s, ob)) = snd (broadcast bad m (s, ob))
   \<and> subscribers (fst (broadcast bad m (reset s, ob))) = subscribers (fst (broadcast bad m (s, ob)))
   \<and> (distinct (subscribers s) \<and> x \<in> set (subscribers s) \<and> x \<notin> bad \<longrightarrow>
        snd (broadcast bad m (reset s, ob)) x = ob x @ [m]
        \<and> x \<in> set (subscribers (fst (broadcast bad m (reset s, ob)))))"
proof -
  have "map subscribers (heap (websocket_message c Reset_data w)) = map subscribers (heap w)"
    by (cases "sessions w (snd c)")
       (simp_all add: websocket_message_def unicast_def map_update_same reset_def split: option.split)
  moreover have "db (websocket_message c Reset_data w) = db w"
    "sessions (websocket_message c Reset_data w) = sessions w"
    by (simp_all add: websocket_message_def unicast_def split: option.split)
  moreover have "distinct (subscribers s) \<Longrightarrow> x \<in> set (subscribers s) \<Longrightarrow> x \<notin> bad \<Longrightarrow>
      snd (broadcast bad m (s, ob)) x = ob x @ [m] \<and> x \<in> set (subscribers (fst (broadcast bad m (s, ob))))"
    by (simp add: broadcast_eq)
  ultimately show ?thesis
    by (simp add: broadcast_reset) (simp add: reset_def)
qed

text \<open>Two subscribers, the first failing; the second still receives after a reset.\<close>

theorem reset_keeps_subscribers_and_row_witness:
  "distinct [(0, ''s1''), (1::nat, ''s1'')] \<and> (1, ''s1'') \<in> set [(0, ''s1''), (1::nat, ''s1'')]
   \<and> (1, ''s1'') \<notin> {(0::nat, ''s1'')}
   \<and> snd (broadcast {(0, ''s1'')} (Assistant_message ''hi'' ''s1'')
        (reset \<lparr>id' = ''s1'', queryPromise = Some 0, subscribers = [(0, ''s1''), (1, ''s1'')],
                messageCount = 2, sdkSessionId = Some ''abc''\<rparr>, \<lambda>c. [])) (1, ''s1'')
       = [Assistant_message ''hi'' ''s1'']"
  using reset_keeps_subscribers_and_row [where s = "\<lparr>id' = ''s1'', queryPromise = Some 0, subscribers = [(0, ''s1''), (1, ''s1'')],
                messageCount = 2, sdkSessionId = Some ''abc''\<rparr>" and x = "(1, ''s1'')" and c = "(0, ''s1'')" and w = init_world and bad = "{(0, ''s1'')}"
                and m = "Assistant_message ''hi'' ''s1''" and ob = "\<lambda>c. []"]
  by (simp add: reset_def broadcast_def send_def)

section \<open>A failing engine\<close>

lemma on_session_simps [simp]:
  "clock (on_session a f w) = clock w"
  "sessions (on_session a f w) = sessions w"
  "db (on_session a f w) = db w"
  "failing (on_session a f w) = failing w"
  "engine (on_session a f w) = engine w"
  "calls (on_session a f w) = calls w"
  "timers (on_session a f w) = timers w"
  "length (heap (on_session a f w)) = length (heap w)"
  "outbox (on_session a f w) = snd (f (heap w ! a, outbox w))"
  by (simp_all add: on_session_def)

lemma heap_on_session:
  "heap (on_session a f w) ! b =
     (if b = a \<and> a < length (heap w) then fst (f (heap w ! a, outbox w)) else heap w ! b)"
  by (simp add: on_session_def nth_update_total)

text \<open>
  C5. When the stream of an invocation in flight throws, the step is taken (the error is
  caught): every healthy subscriber of the coordinator receives an \<^verbatim>\<open>error\<close> event with
  the failure description and nobody else receives anything, the invocation is settled
  and the in-flight promise of the coordinator is cleared; and a message frame for the
  session after that starts a new engine invocation at once, with the new content.
\<close>

theorem engine_error_is_not_fatal:
  assumes "in_flight w q" and "owner (engine w ! q) = a" and "a < length (heap w)"
    and "distinct (subscribers (heap w ! a))" and "sessions w (snd c) = Some a"
  shows "\<exists>w' w''. step (Throw q err) w = Some w'
      \<and> \<not> in_flight w' q \<and> settled w' q
      \<and> queryPromise (heap w' ! a) = None
      \<and> (\<forall>x. outbox w' x =
            (if x \<in> set (subscribers (heap w ! a)) \<and> x \<notin> failing w
             then outbox w x @ [Error_event err (id' (heap w ! a))] else outbox w x))
      \<and> step (Incoming c (Message_data msg)) w' = Some w''
      \<and> in_flight w'' (length (engine w'))
      \<and> owner (engine w'' ! length (engine w')) = a
      \<and> prompt (engine w'' ! length (engine w')) = msg
      \<and> queryPromise (heap w'' ! a) = Some (length (engine w'))"
proof -
  let ?v = "on_session a (broadcastError (failing w) err) w"
  let ?w' = "settle q ?v"
  from assms have q: "q < length (engine w)" by (simp add: in_flight_def)
  have 1: "step (Throw q err) w = Some ?w'"
    using assms by (simp add: stream_throw_def)
  have 2: "\<not> in_flight ?w' q" "settled ?w' q" using q
    by (simp_all add: in_flight_def settled_def settle_def)
  have 3: "queryPromise (heap ?w' ! a) = None"
    using assms by (simp add: settle_def)
  have 4: "outbox ?w' x =
            (if x \<in> set (subscribers (heap w ! a)) \<and> x \<notin> failing w
             then outbox w x @ [Error_event err (id' (heap w ! a))] else outbox w x)" for x
    using assms by (simp add: settle_def broadcastError_def broadcast_eq)
  have 5: "sessions ?w' (snd c) = Some a" "length (heap ?w') = length (heap w)"
    using assms by (simp_all add: settle_def)
  let ?w'' = "websocket_message c (Message_data msg) ?w'"
  have 6: "step (Incoming c (Message_data msg)) ?w' = Some ?w''" by simp
  have 7: "?w'' = (start_turn a msg ?w')\<lparr>calls := calls ?w' @ [Awaiting (length (engine ?w'))]\<rparr>"
    using 3 5 by (simp add: websocket_message_def addUserMessage_def)
  have 8: "in_flight ?w'' (length (engine ?w'))"
    "owner (engine ?w'' ! length (engine ?w')) = a"
    "prompt (engine ?w'' ! length (engine ?w')) = msg"
    "queryPromise (heap ?w'' ! a) = Some (length (engine ?w'))"
    using assms(3) 5 unfolding 7
    by (simp_all add: start_turn_def in_flight_def)
  from 1 2 3 4 6 8 show ?thesis by blast
qed

text \<open>The first turn of \<^verbatim>\<open>s1\<close> throws \<^verbatim>\<open>boom\<close>; the next message starts invocation 1.\<close>

theorem engine_error_is_not_fatal_witness:
  "in_flight (the (run first_message init_world)) 0
   \<and> owner (engine (the (run first_message init_world)) ! 0) = 0
   \<and> 0 < length (heap (the (run first_message init_world)))
   \<and> distinct (subscribers (heap (the (run first_message init_world)) ! 0))
   \<and> sessions (the (run first_message init_world)) (snd (0::nat, ''s1'')) = Some 0
   \<and> (\<exists>w' w''. step (Throw 0 ''boom'') (the (run first_message init_world)) = Some w'
      \<and> queryPromise (heap w' ! 0) = None
      \<and> outbox w' (0, ''s1'') = [Session_info ''s1'' 0 False, Error_event ''boom'' ''s1'']
      \<and> step (Incoming (0, ''s1'') (Message_data ''again'')) w' = Some w''
      \<and> in_flight w'' 1
      \<and> prompt (engine w'' ! 1) = ''again'')"
proof -
  let ?W = "the (run first_message init_world)"
  have h: "in_flight ?W 0" "owner (engine ?W ! 0) = 0" "0 < length (heap ?W)"
    "distinct (subscribers (heap ?W ! 0))" "sessions ?W (snd (0::nat, ''s1'')) = Some 0"
    by (simp_all add: first_message_def model_defs)
  have e: "length (engine ?W) = 1" "outbox ?W (0, ''s1'') = [Session_info ''s1'' 0 False]"
    "subscribers (heap ?W ! 0) = [(0, ''s1'')]" "failing ?W = {}" "id' (heap ?W ! 0) = ''s1''"
    by (simp_all add: first_message_def model_defs)
  from engine_error_is_not_fatal [OF h, of "''boom''" "''again''"] obtain w' w'' where
    "step (Throw 0 ''boom'') ?W = Some w'" "queryPromise (heap w' ! 0) = None"
    "settled w' 0"
    "\<forall>x. outbox w' x =
            (if x \<in> set (subscribers (heap ?W ! 0)) \<and> x \<notin> failing ?W
             then outbox ?W x @ [Error_event ''boom'' (id' (heap ?W ! 0))] else outbox ?W x)"
    "step (Incoming (0, ''s1'') (Message_data ''again'')) w' = Some w''"
    "in_flight w'' (length (engine w'))"
    "prompt (engine w'' ! length (engine w')) = ''again''"
    by blast
  moreover from this(1) have "length (engine w') = 1"
    using h(1) e(1) by (auto simp: stream_throw_def settle_def split: if_splits)
  ultimately show ?thesis using h e by auto
qed

section \<open>What a turn writes to the database\<close>

lemma run_append:
  "run (xs @ ys) w = (case run xs w of Some w' \<Rightarrow> run ys w' | None \<Rightarrow> None)"
  by (induction xs arbitrary: w) (simp_all split: option.split)

lemma on_message_frame:
  "clock (on_message a m w) = clock w"
  "engine (on_message a m w) = engine w"
  "sessions (on_message a m w) = sessions w"
  "length (heap (on_message a m w)) = length (heap w)"
  "id' (heap (on_message a m w) ! a) = id' (heap w ! a)"
  "messageCount (heap (on_message a m w) ! a) = messageCount (heap w ! a)"
  "queryPromise (heap (on_message a m w) ! a) = queryPromise (heap w ! a)"
  by (auto simp: on_message_def capture_init_def heap_on_session nth_update_total
      split: sdk_message.split)

lemma on_message_db:
  "db (on_message a m w) =
     (case init_token m of
        Some tok \<Rightarrow> update_row (id' (heap w ! a)) (Some tok) (clock w) (messageCount (heap w ! a)) (db w)
      | None \<Rightarrow> db w)"
  by (cases m) (auto simp: on_message_def capture_init_def heap_on_session)

lemma on_message_token:
  "a < length (heap w) \<Longrightarrow>
   sdkSessionId (heap (on_message a m w) ! a) =
     (case init_token m of Some tok \<Rightarrow> Some tok | None \<Rightarrow> sdkSessionId (heap w ! a))"
  by (cases m) (auto simp: on_message_def capture_init_def heap_on_session)

text \<open>What a stream of messages, with the time passing between them, leaves in place.\<close>

lemma stream_frame:
  assumes "in_flight w q" and "owner (engine w ! q) = a" and "db w (id' (heap w ! a)) = Some r"
  shows "\<exists>w1 r1. run (stream_actions q ms) w = Some w1
      \<and> clock w1 = clock w + sum_list (map fst ms)
      \<and> engine w1 = engine w \<and> sessions w1 = sessions w
      \<and> length (heap w1) = length (heap w)
      \<and> id' (heap w1 ! a) = id' (heap w ! a)
      \<and> messageCount (heap w1 ! a) = messageCount (heap w ! a)
      \<and> queryPromise (heap w1 ! a) = queryPromise (heap w ! a)
      \<and> db w1 (id' (heap w ! a)) = Some r1 \<and> created_at r1 = created_at r"
  using assms
proof (induction ms arbitrary: w r)
  case Nil
  then show ?case by simp
next
  case (Cons x ms)
  let ?t = "w\<lparr>clock := clock w + fst x\<rparr>"
  let ?v = "on_message a (snd x) ?t"
  have f: "in_flight ?t q" "owner (engine ?t ! q) = a"
    using Cons.prems by (simp_all add: in_flight_def)
  have s: "run (stream_actions q (x # ms)) w = run (stream_actions q ms) ?v"
    using f by (simp add: stream_yield_def)
  have v: "in_flight ?v q" "owner (engine ?v ! q) = a"
    using f by (simp_all add: in_flight_def on_message_frame)
  obtain r' where r': "db ?v (id' (heap ?v ! a)) = Some r'" "created_at r' = created_at r"
    using Cons.prems(3)
    by (cases "init_token (snd x)") (auto simp: on_message_db on_message_frame update_row_def)
  from Cons.IH [OF v r'(1)] r'(2) show ?case
    unfolding s by (fastforce simp: on_message_frame)
qed

lemma stream_finish:
  assumes "in_flight w q" and "owner (engine w ! q) = a" and "a < length (heap w)"
    and "fin = End q \<or> fin = Throw q err"
  shows "\<exists>w'. run [fin] w = Some w' \<and> db w' = db w
      \<and> sdkSessionId (heap w' ! a) = sdkSessionId (heap w ! a)
      \<and> messageCount (heap w' ! a) = messageCount (heap w ! a)
      \<and> queryPromise (heap w' ! a) = None"
  using assms
  by (auto simp: stream_end_def stream_throw_def settle_def heap_on_session)

lemma message_starts_turn:
  assumes "sessions w (snd c) = Some a" and "a < length (heap w)"
    and "queryPromise (heap w ! a) = None"
  shows "\<exists>w0. step (Incoming c (Message_data msg)) w = Some w0
      \<and> in_flight w0 (length (engine w)) \<and> owner (engine w0 ! length (engine w)) = a
      \<and> length (heap w0) = length (heap w) \<and> db w0 = db w \<and> clock w0 = clock w
      \<and> id' (heap w0 ! a) = id' (heap w ! a)
      \<and> sdkSessionId (heap w0 ! a) = sdkSessionId (heap w ! a)
      \<and> messageCount (heap w0 ! a) = messageCount (heap w ! a) + 1"
  using assms
  by (simp add: websocket_message_def addUserMessage_def start_turn_def in_flight_def)

lemma row_eq:
  "created_at r1 = created_at r \<Longrightarrow>
   r1\<lparr>session_id := t, last_active_at := n, message_count := k\<rparr> =
     \<lparr>session_id = t, created_at = created_at r, last_active_at = n, message_count = k\<rparr>"
  by (cases r1) simp

lemma on_message_heap:
  "id' (heap (on_message a m w) ! b) = id' (heap w ! b)"
  "messageCount (heap (on_message a m w) ! b) = messageCount (heap w ! b)"
  "b \<noteq> a \<Longrightarrow> sdkSessionId (heap (on_message a m w) ! b) = sdkSessionId (heap w ! b)"
  by (cases m; simp add: on_message_def capture_init_def heap_on_session nth_update_total)+

lemma update_row_other:
  "i \<noteq> j \<Longrightarrow> update_row j tok now n d i = d i"
  by (simp add: update_row_def split: option.split)

lemma insert_or_ignore_present:
  "d i = Some r \<Longrightarrow> insert_or_ignore j now d i = Some r"
  by (cases "i = j") (auto simp: insert_or_ignore_def split: option.split)

text \<open>Where the invocation and its coordinator are after a step.\<close>

lemma turn_step_place:
  assumes "step x w = Some w'" and "q < length (engine w)" and "owner (engine w ! q) = a"
    and "a < length (heap w)"
  shows "q < length (engine w') \<and> owner (engine w' ! q) = a \<and> a < length (heap w')
       \<and> id' (heap w' ! a) = id' (heap w ! a) \<and> clock w' = clock w + ticks [x]"
proof (cases x)
  case (Open c)
  with assms show ?thesis
    by (auto simp: websocket_open_def heap_on_session nth_append new_session_def
        split: option.splits)
next
  case (Incoming c d)
  with assms show ?thesis
    by (auto simp: websocket_message_def unicast_def addUserMessage_def start_turn_def
        nth_update_total nth_append reset_def split: option.splits data.splits)
next
  case (Close c)
  with assms show ?thesis
    by (auto simp: websocket_close_def unsubscribe_def nth_update_total split: option.splits)
next
  case (Fire k)
  with assms show ?thesis
    by (auto simp: timer_fire_def cleanup_def nth_update_total split: if_splits prod.splits)
next
  case (Yield q' m)
  with assms show ?thesis
    by (auto simp: stream_yield_def on_message_frame on_message_heap split: if_splits)
next
  case (Throw q' err)
  with assms show ?thesis
    by (auto simp: stream_throw_def settle_def heap_on_session nth_update_total
        split: if_splits)
next
  case (End q')
  with assms show ?thesis
    by (auto simp: stream_end_def settle_def nth_update_total split: if_splits)
next
  case (Resume k)
  with assms show ?thesis
    by (auto simp: resume_call_def start_turn_def nth_update_total nth_append
        split: if_splits call.splits)
qed (use assms in auto)

lemma turn_step_quiet:
  assumes "step x w = Some w'" and "\<not> disturbs q w x" and "\<not> init_of q x"
    and "owner (engine w ! q) = a" and "a < length (heap w)"
    and "db w (id' (heap w ! a)) = Some r"
  shows "messageCount (heap w' ! a) = messageCount (heap w ! a)
       \<and> sdkSessionId (heap w' ! a) = sdkSessionId (heap w ! a)
       \<and> db w' (id' (heap w ! a)) = Some r"
proof (cases x)
  case (Open c)
  with assms show ?thesis
    by (auto simp: websocket_open_def heap_on_session nth_append new_session_def
        insert_or_ignore_present split: option.splits)
next
  case (Incoming c d)
  show ?thesis
  proof (cases d)
    case (Message_data m)
    with Incoming assms show ?thesis
      by (auto simp: websocket_message_def unicast_def addUserMessage_def start_turn_def
          nth_update_total split: option.splits)
  next
    case Reset_data
    with Incoming assms show ?thesis
      by (auto simp: websocket_message_def unicast_def nth_update_total split: option.splits)
  next
    case (Other_data ty)
    with Incoming assms show ?thesis
      by (auto simp: websocket_message_def unicast_def split: option.splits)
  qed
next
  case (Close c)
  with assms show ?thesis
    by (auto simp: websocket_close_def unsubscribe_def nth_update_total split: option.splits)
next
  case (Fire k)
  with assms show ?thesis
    by (auto simp: timer_fire_def cleanup_def nth_update_total split: if_splits prod.splits)
next
  case (Yield q' m)
  with assms(1) have w': "w' = on_message (owner (engine w ! q')) m w"
    by (auto simp: stream_yield_def split: if_splits)
  show ?thesis
  proof (cases "init_token m")
    case None
    with assms(4,5,6) show ?thesis
      unfolding w'
      by (cases "owner (engine w ! q') = a")
         (simp_all add: on_message_heap on_message_db on_message_token)
  next
    case (Some tok)
    with Yield assms(2,3,4) have ne: "q' \<noteq> q"
      "id' (heap w ! owner (engine w ! q')) \<noteq> id' (heap w ! a)"
      by auto
    then have "owner (engine w ! q') \<noteq> a" by auto
    with ne Some assms(6) show ?thesis
      unfolding w'
      by (simp add: on_message_heap on_message_db update_row_other)
  qed
next
  case (Throw q' err)
  with assms show ?thesis
    by (auto simp: stream_throw_def settle_def heap_on_session nth_update_total
        split: if_splits)
next
  case (End q')
  with assms show ?thesis
    by (auto simp: stream_end_def settle_def nth_update_total split: if_splits)
next
  case (Resume k)
  with assms show ?thesis
    by (auto simp: resume_call_def start_turn_def nth_update_total
        split: if_splits call.splits)
qed (use assms in auto)

lemma turn_step_init:
  assumes "step x w = Some w'" and "init_of q x"
    and "owner (engine w ! q) = a" and "a < length (heap w)"
    and "db w (id' (heap w ! a)) = Some r"
  shows "\<exists>tok. x = Yield q (System ''init'' tok)
       \<and> messageCount (heap w' ! a) = messageCount (heap w ! a)
       \<and> sdkSessionId (heap w' ! a) = Some tok
       \<and> db w' (id' (heap w ! a)) =
           Some (r\<lparr>session_id := Some tok, last_active_at := clock w,
                   message_count := messageCount (heap w ! a)\<rparr>)"
proof -
  from assms(2) obtain m where x: "x = Yield q m" and i: "init_token m \<noteq> None"
    by (cases x) auto
  from i obtain tok where m: "m = System ''init'' tok"
    by (cases m) (auto split: if_splits)
  from assms(1) x have w': "w' = on_message a m w"
    by (auto simp: stream_yield_def assms(3) split: if_splits)
  show ?thesis
    using assms(4,5) unfolding w' x m
    by (simp add: on_message_heap on_message_db on_message_token update_row_def)
qed

lemma ticks_Cons: "ticks (x # xs) = ticks [x] + ticks xs"
  by (cases x) simp_all

lemma ticks_append: "ticks (xs @ ys) = ticks xs + ticks ys"
proof (induction xs)
  case Nil
  then show ?case by simp
next
  case (Cons x xs)
  then show ?case using ticks_Cons [of x "xs @ ys"] ticks_Cons [of x xs] by simp
qed

lemma undisturbed_append:
  "run xs w = Some v \<Longrightarrow> undisturbed q (xs @ ys) w = (undisturbed q xs w \<and> undisturbed q ys v)"
  by (induction xs arbitrary: w) (auto split: option.splits)

lemma turn_run_place:
  assumes "run xs w = Some v" and "q < length (engine w)" and "owner (engine w ! q) = a"
    and "a < length (heap w)"
  shows "q < length (engine v) \<and> owner (engine v ! q) = a \<and> a < length (heap v)
       \<and> id' (heap v ! a) = id' (heap w ! a) \<and> clock v = clock w + ticks xs"
  using assms
proof (induction xs arbitrary: w)
  case Nil
  then show ?case by simp
next
  case (Cons x xs)
  from Cons.prems(1) obtain w' where s: "step x w = Some w'" "run xs w' = Some v"
    by (auto split: option.splits)
  from turn_step_place [OF s(1) Cons.prems(2,3,4)]
  have p: "q < length (engine w')" "owner (engine w' ! q) = a" "a < length (heap w')"
    "id' (heap w' ! a) = id' (heap w ! a)" "clock w' = clock w + ticks [x]"
    by simp_all
  from Cons.IH [OF s(2) p(1,2,3)] p(4,5) ticks_Cons [of x xs] show ?case by simp
qed

lemma turn_run_quiet:
  assumes "run xs w = Some v" and "undisturbed q xs w" and "\<forall>x\<in>set xs. \<not> init_of q x"
    and "q < length (engine w)" and "owner (engine w ! q) = a" and "a < length (heap w)"
    and "db w (id' (heap w ! a)) = Some r"
  shows "messageCount (heap v ! a) = messageCount (heap w ! a)
       \<and> sdkSessionId (heap v ! a) = sdkSessionId (heap w ! a)
       \<and> db v (id' (heap w ! a)) = Some r"
  using assms
proof (induction xs arbitrary: w)
  case Nil
  then show ?case by simp
next
  case (Cons x xs)
  from Cons.prems(1) obtain w' where s: "step x w = Some w'" "run xs w' = Some v"
    by (auto split: option.splits)
  from Cons.prems(2,3) s(1) have u: "\<not> disturbs q w x" "undisturbed q xs w'"
    "\<not> init_of q x" "\<forall>y\<in>set xs. \<not> init_of q y"
    by simp_all
  from turn_step_place [OF s(1) Cons.prems(4,5,6)]
  have p: "q < length (engine w')" "owner (engine w' ! q) = a" "a < length (heap w')"
    "id' (heap w' ! a) = id' (heap w ! a)"
    by simp_all
  from turn_step_quiet [OF s(1) u(1,3) Cons.prems(5,6,7)]
  have t: "messageCount (heap w' ! a) = messageCount (heap w ! a)"
    "sdkSessionId (heap w' ! a) = sdkSessionId (heap w ! a)"
    "db w' (id' (heap w ! a)) = Some r"
    by simp_all
  from Cons.IH [OF s(2) u(2,4) p(1,2,3)] t p(4) show ?case by simp
qed

lemma turn_run_row:
  assumes "run xs w = Some v" and "undisturbed q xs w"
    and "q < length (engine w)" and "owner (engine w ! q) = a" and "a < length (heap w)"
    and "db w (id' (heap w ! a)) = Some r"
  shows "messageCount (heap v ! a) = messageCount (heap w ! a)
       \<and> (\<exists>r1. db v (id' (heap w ! a)) = Some r1 \<and> created_at r1 = created_at r)"
  using assms
proof (induction xs arbitrary: w r)
  case Nil
  then show ?case by simp
next
  case (Cons x xs)
  from Cons.prems(1) obtain w' where s: "step x w = Some w'" "run xs w' = Some v"
    by (auto split: option.splits)
  from Cons.prems(2) s(1) have u: "\<not> disturbs q w x" "undisturbed q xs w'"
    by simp_all
  from turn_step_place [OF s(1) Cons.prems(3,4,5)]
  have p: "q < length (engine w')" "owner (engine w' ! q) = a" "a < length (heap w')"
    "id' (heap w' ! a) = id' (heap w ! a)"
    by simp_all
  have "messageCount (heap w' ! a) = messageCount (heap w ! a)
      \<and> (\<exists>r'. db w' (id' (heap w ! a)) = Some r' \<and> created_at r' = created_at r)"
  proof (cases "init_of q x")
    case True
    from turn_step_init [OF s(1) True Cons.prems(4,5,6)] show ?thesis by auto
  next
    case False
    from turn_step_quiet [OF s(1) u(1) False Cons.prems(4,5,6)] show ?thesis by simp
  qed
  then obtain r' where t: "messageCount (heap w' ! a) = messageCount (heap w ! a)"
    "db w' (id' (heap w' ! a)) = Some r'" "created_at r' = created_at r"
    using p(4) by auto
  from Cons.IH [OF s(2) u(2) p(1,2,3) t(2)] t p(4) show ?case by simp
qed

lemma resume_starts_turn:
  assumes "k < length (calls w)" and "calls w ! k = Waiting a p msg" and "settled w p"
    and "a < length (heap w)"
  shows "\<exists>w0. step (Resume k) w = Some w0
      \<and> in_flight w0 (length (engine w)) \<and> owner (engine w0 ! length (engine w)) = a
      \<and> length (heap w0) = length (heap w) \<and> db w0 = db w \<and> clock w0 = clock w
      \<and> id' (heap w0 ! a) = id' (heap w ! a)
      \<and> sdkSessionId (heap w0 ! a) = sdkSessionId (heap w ! a)
      \<and> messageCount (heap w0 ! a) = messageCount (heap w ! a) + 1"
  using assms
  by (simp add: resume_call_def start_turn_def in_flight_def)

lemma turn_starts:
  assumes "(start = Incoming c (Message_data msg) \<and> sessions w (snd c) = Some a
             \<and> queryPromise (heap w ! a) = None)
         \<or> (start = Resume k \<and> k < length (calls w) \<and> calls w ! k = Waiting a p msg
             \<and> settled w p)"
    and "a < length (heap w)"
  shows "\<exists>w0. step start w = Some w0
      \<and> in_flight w0 (length (engine w)) \<and> owner (engine w0 ! length (engine w)) = a
      \<and> length (heap w0) = length (heap w) \<and> db w0 = db w \<and> clock w0 = clock w
      \<and> id' (heap w0 ! a) = id' (heap w ! a)
      \<and> sdkSessionId (heap w0 ! a) = sdkSessionId (heap w ! a)
      \<and> messageCount (heap w0 ! a) = messageCount (heap w ! a) + 1"
  using assms(1)
proof
  assume "start = Incoming c (Message_data msg) \<and> sessions w (snd c) = Some a
             \<and> queryPromise (heap w ! a) = None"
  with message_starts_turn [of w c a msg] assms(2) show ?thesis by simp
next
  assume "start = Resume k \<and> k < length (calls w) \<and> calls w ! k = Waiting a p msg
             \<and> settled w p"
  with resume_starts_turn [of k w a p msg] assms(2) show ?thesis by simp
qed

text \<open>The stream of a turn alone, with the time passing, does not disturb the turn.\<close>

lemma undisturbed_stream: "undisturbed q (stream_actions q ms) w"
proof (induction ms arbitrary: w)
  case Nil
  then show ?case by simp
next
  case (Cons x ms)
  then show ?case by (simp add: stream_yield_def split: option.split)
qed

text \<open>
  C2, as amended. Take a turn of \<^verbatim>\<open>addUserMessage\<close> on a coordinator whose row exists: one
  started at once by a message frame that finds the coordinator idle, or one started by
  a call that has waited for an earlier turn. Left alone with its stream the turn always
  runs to its end. Whatever else happens while it runs, as long as its coordinator is
  not reset, no other turn starts on its coordinator and no \<^verbatim>\<open>init\<close> message of another
  invocation of the same session id is processed, at its end (the stream ends, or
  throws and the error is caught) the in-flight promise is cleared and one more
  message is counted. If the stream yielded a turn-start (\<^verbatim>\<open>system/init\<close>) message, the
  row then holds the token of the last such message, which is the coordinator's token,
  the time at which that message was processed, and the coordinator's message count.
  If it yielded none, the row and the coordinator's token are as they were before the
  turn.
\<close>

theorem turn_persists_at_turn_start:
  assumes start:
      "(start = Incoming c (Message_data msg) \<and> sessions w (snd c) = Some a
          \<and> queryPromise (heap w ! a) = None)
       \<or> (start = Resume k \<and> k < length (calls w) \<and> calls w ! k = Waiting a p msg
          \<and> settled w p)"
    and a: "a < length (heap w)"
    and row: "db w (id' (heap w ! a)) = Some r"
    and fin: "fin = End (length (engine w)) \<or> fin = Throw (length (engine w)) err"
  shows "(\<exists>v. run (start # stream_actions (length (engine w)) ms @ [fin]) w = Some v)
     \<and> (step start w = Some w0 \<and> run (xs @ [fin]) w0 = Some w'
          \<and> undisturbed (length (engine w)) xs w0 \<longrightarrow>
        queryPromise (heap w' ! a) = None
        \<and> messageCount (heap w' ! a) = messageCount (heap w ! a) + 1
        \<and> (\<forall>pre tok post.
              xs = pre @ Yield (length (engine w)) (System ''init'' tok) # post
                \<and> (\<forall>x\<in>set post. \<not> init_of (length (engine w)) x) \<longrightarrow>
              sdkSessionId (heap w' ! a) = Some tok
              \<and> db w' (id' (heap w ! a)) =
                  Some \<lparr>session_id = Some tok, created_at = created_at r,
                        last_active_at = clock w + ticks pre,
                        message_count = messageCount (heap w ! a) + 1\<rparr>)
        \<and> ((\<forall>x\<in>set xs. \<not> init_of (length (engine w)) x) \<longrightarrow>
              db w' (id' (heap w ! a)) = Some r
              \<and> sdkSessionId (heap w' ! a) = sdkSessionId (heap w ! a)))"
proof -
  let ?q = "length (engine w)"
  let ?i = "id' (heap w ! a)"
  from turn_starts [OF start a] obtain u where
    u: "step start w = Some u" "in_flight u ?q" "owner (engine u ! ?q) = a"
      "length (heap u) = length (heap w)" "db u = db w" "clock u = clock w"
      "id' (heap u ! a) = ?i" "sdkSessionId (heap u ! a) = sdkSessionId (heap w ! a)"
      "messageCount (heap u ! a) = messageCount (heap w ! a) + 1"
    by blast
  have qu: "?q < length (engine u)" and au: "a < length (heap u)"
    and rowu: "db u (id' (heap u ! a)) = Some r"
    using u a row by (simp_all add: in_flight_def)
  have first: "\<exists>v. run (start # stream_actions ?q ms @ [fin]) w = Some v"
  proof -
    from stream_frame [OF u(2,3) rowu, of ms] obtain w1 where
      w1: "run (stream_actions ?q ms) u = Some w1" "engine w1 = engine u"
        "length (heap w1) = length (heap u)"
      by blast
    have "in_flight w1 ?q" "owner (engine w1 ! ?q) = a" "a < length (heap w1)"
      using u w1 au by (simp_all add: in_flight_def)
    from stream_finish [OF this, of fin err] fin obtain v where "run [fin] w1 = Some v"
      by blast
    with u(1) w1(1) show ?thesis by (simp add: run_append)
  qed
  have second: "queryPromise (heap w' ! a) = None
        \<and> messageCount (heap w' ! a) = messageCount (heap w ! a) + 1
        \<and> (\<forall>pre tok post.
              xs = pre @ Yield ?q (System ''init'' tok) # post
                \<and> (\<forall>x\<in>set post. \<not> init_of ?q x) \<longrightarrow>
              sdkSessionId (heap w' ! a) = Some tok
              \<and> db w' ?i =
                  Some \<lparr>session_id = Some tok, created_at = created_at r,
                        last_active_at = clock w + ticks pre,
                        message_count = messageCount (heap w ! a) + 1\<rparr>)
        \<and> ((\<forall>x\<in>set xs. \<not> init_of ?q x) \<longrightarrow>
              db w' ?i = Some r
              \<and> sdkSessionId (heap w' ! a) = sdkSessionId (heap w ! a))"
    if s0: "step start w = Some w0" and rn: "run (xs @ [fin]) w0 = Some w'"
      and und: "undisturbed ?q xs w0"
  proof -
    from s0 u(1) have w0: "w0 = u" by simp
    from rn obtain v where v: "run xs u = Some v" "run [fin] v = Some w'"
      unfolding w0 by (auto simp: run_append split: option.splits)
    from und have und: "undisturbed ?q xs u" by (simp add: w0)
    from turn_run_place [OF v(1) qu u(3) au]
    have pv: "?q < length (engine v)" "owner (engine v ! ?q) = a" "a < length (heap v)"
      by simp_all
    from v(2) fin have "in_flight v ?q"
      by (auto simp: stream_end_def stream_throw_def split: if_splits)
    from stream_finish [OF this pv(2,3), of fin err] fin v(2)
    have e: "db w' = db v" "sdkSessionId (heap w' ! a) = sdkSessionId (heap v ! a)"
      "messageCount (heap w' ! a) = messageCount (heap v ! a)"
      "queryPromise (heap w' ! a) = None"
      by auto
    from turn_run_row [OF v(1) und qu u(3) au rowu] u(9) e(3)
    have cnt: "messageCount (heap w' ! a) = messageCount (heap w ! a) + 1" by simp
    have none: "db w' ?i = Some r \<and> sdkSessionId (heap w' ! a) = sdkSessionId (heap w ! a)"
      if "\<forall>x\<in>set xs. \<not> init_of ?q x"
      using turn_run_quiet [OF v(1) und that qu u(3) au rowu] e u(7,8) by simp
    have some: "sdkSessionId (heap w' ! a) = Some tok
              \<and> db w' ?i =
                  Some \<lparr>session_id = Some tok, created_at = created_at r,
                        last_active_at = clock w + ticks pre,
                        message_count = messageCount (heap w ! a) + 1\<rparr>"
      if xs: "xs = pre @ Yield ?q (System ''init'' tok) # post"
        and post: "\<forall>x\<in>set post. \<not> init_of ?q x"
      for pre tok post
    proof -
      from v(1) obtain t t' where
        t: "run pre u = Some t" "step (Yield ?q (System ''init'' tok)) t = Some t'"
          "run post t' = Some v"
        unfolding xs by (auto simp: run_append split: option.splits)
      from und t(1) have up: "undisturbed ?q pre u"
        and ur: "undisturbed ?q (Yield ?q (System ''init'' tok) # post) t"
        unfolding xs by (simp_all add: undisturbed_append)
      from ur t(2) have upost: "undisturbed ?q post t'" by simp
      from turn_run_place [OF t(1) qu u(3) au]
      have pt: "?q < length (engine t)" "owner (engine t ! ?q) = a" "a < length (heap t)"
        "id' (heap t ! a) = id' (heap u ! a)" "clock t = clock u + ticks pre"
        by simp_all
      from turn_run_row [OF t(1) up qu u(3) au rowu] obtain r1 where
        r1: "messageCount (heap t ! a) = messageCount (heap u ! a)"
          "db t (id' (heap u ! a)) = Some r1" "created_at r1 = created_at r"
        by blast
      have rowt: "db t (id' (heap t ! a)) = Some r1" using r1(2) pt(4) by simp
      from turn_step_init [OF t(2) _ pt(2,3) rowt]
      have i: "messageCount (heap t' ! a) = messageCount (heap t ! a)"
        "sdkSessionId (heap t' ! a) = Some tok"
        "db t' (id' (heap t ! a)) =
           Some (r1\<lparr>session_id := Some tok, last_active_at := clock t,
                   message_count := messageCount (heap t ! a)\<rparr>)"
        by simp_all
      from turn_step_place [OF t(2) pt(1,2,3)]
      have pt': "?q < length (engine t')" "owner (engine t' ! ?q) = a" "a < length (heap t')"
        "id' (heap t' ! a) = id' (heap t ! a)"
        by simp_all
      have rowt': "db t' (id' (heap t' ! a)) =
           Some (r1\<lparr>session_id := Some tok, last_active_at := clock t,
                   message_count := messageCount (heap t ! a)\<rparr>)"
        using i(3) pt'(4) by simp
      from turn_run_quiet [OF t(3) upost post pt'(1,2,3) rowt']
      have f: "sdkSessionId (heap v ! a) = sdkSessionId (heap t' ! a)"
        "db v (id' (heap t' ! a)) =
           Some (r1\<lparr>session_id := Some tok, last_active_at := clock t,
                   message_count := messageCount (heap t ! a)\<rparr>)"
        by simp_all
      have "id' (heap t' ! a) = ?i" using pt'(4) pt(4) u(7) by simp
      with f e i r1 pt(5) u(6,9) show ?thesis
        by (simp add: row_eq)
    qed
    from e(4) cnt none some show ?thesis by blast
  qed
  from first second show ?thesis by blast
qed

text \<open>
  The turn of a message that has waited for the first turn of \<^verbatim>\<open>s1\<close>: its \<^verbatim>\<open>init\<close> arrives
  at time 3, and a second connection opens and closes while it runs.
\<close>

theorem turn_persists_at_turn_start_witness:
  "1 < length (calls (the (run queued_call_ready init_world)))
   \<and> calls (the (run queued_call_ready init_world)) ! 1 = Waiting 0 0 ''b''
   \<and> settled (the (run queued_call_ready init_world)) 0
   \<and> 0 < length (heap (the (run queued_call_ready init_world)))
   \<and> db (the (run queued_call_ready init_world)) ''s1'' =
       Some \<lparr>session_id = None, created_at = 0, last_active_at = 0, message_count = 0\<rparr>
   \<and> messageCount (heap (the (run queued_call_ready init_world)) ! 0) = 1
   \<and> run (Resume 1 # busy_turn @ [End 1]) (the (run queued_call_ready init_world)) \<noteq> None
   \<and> undisturbed 1 busy_turn
        (the (step (Resume 1) (the (run queued_call_ready init_world))))
   \<and> queryPromise (heap (the (run (Resume 1 # busy_turn @ [End 1])
        (the (run queued_call_ready init_world)))) ! 0) = None
   \<and> messageCount (heap (the (run (Resume 1 # busy_turn @ [End 1])
        (the (run queued_call_ready init_world)))) ! 0) = 2
   \<and> sdkSessionId (heap (the (run (Resume 1 # busy_turn @ [End 1])
        (the (run queued_call_ready init_world)))) ! 0) = Some ''abc''
   \<and> db (the (run (Resume 1 # busy_turn @ [End 1])
        (the (run queued_call_ready init_world)))) ''s1'' =
       Some \<lparr>session_id = Some ''abc'', created_at = 0, last_active_at = 3,
             message_count = 2\<rparr>"
proof -
  let ?W = "the (run queued_call_ready init_world)"
  let ?U = "the (step (Resume 1) ?W)"
  let ?V = "the (run (Resume 1 # busy_turn @ [End 1]) ?W)"
  have h: "1 < length (calls ?W)" "calls ?W ! 1 = Waiting 0 0 ''b''" "settled ?W 0"
    "0 < length (heap ?W)" "id' (heap ?W ! 0) = ''s1''"
    "db ?W ''s1'' =
       Some \<lparr>session_id = None, created_at = 0, last_active_at = 0, message_count = 0\<rparr>"
    "messageCount (heap ?W ! 0) = 1" "length (engine ?W) = 1" "clock ?W = 0"
    by (simp_all add: queued_call_ready_def second_waiting_def model_defs)
  have s: "step (Resume 1) ?W = Some ?U"
    by (simp add: queued_call_ready_def second_waiting_def model_defs)
  have r: "run (busy_turn @ [End 1]) ?U = Some ?V"
    "run (Resume 1 # busy_turn @ [End 1]) ?W \<noteq> None"
    by (simp_all add: queued_call_ready_def second_waiting_def busy_turn_def model_defs)
  have u: "undisturbed 1 busy_turn ?U"
    by (simp add: queued_call_ready_def second_waiting_def busy_turn_def model_defs)
  have st: "(Resume 1 = Incoming (0, ''s1'') (Message_data ''b'')
              \<and> sessions ?W (snd (0::nat, ''s1'')) = Some 0 \<and> queryPromise (heap ?W ! 0) = None)
       \<or> (Resume 1 = Resume 1 \<and> 1 < length (calls ?W) \<and> calls ?W ! 1 = Waiting 0 0 ''b''
              \<and> settled ?W 0)"
    using h by simp
  have row: "db ?W (id' (heap ?W ! 0)) =
       Some \<lparr>session_id = None, created_at = 0, last_active_at = 0, message_count = 0\<rparr>"
    using h by simp
  have fin: "End 1 = End (length (engine ?W)) \<or> End 1 = Throw (length (engine ?W)) []"
    using h by simp
  have u': "undisturbed (length (engine ?W)) busy_turn ?U"
    using u h(8) by simp
  note C = turn_persists_at_turn_start [OF st h(4) row fin, of "[]" ?U busy_turn ?V,
      THEN conjunct2, THEN mp, OF conjI [OF s conjI [OF r(1) u']]]
  from C have c1: "queryPromise (heap ?V ! 0) = None"
    and c2: "messageCount (heap ?V ! 0) = messageCount (heap ?W ! 0) + 1"
    by blast+
  from C have A: "\<And>pre tok post.
      busy_turn = pre @ Yield (length (engine ?W)) (System ''init'' tok) # post \<Longrightarrow>
      \<forall>x\<in>set post. \<not> init_of (length (engine ?W)) x \<Longrightarrow>
      sdkSessionId (heap ?V ! 0) = Some tok
      \<and> db ?V (id' (heap ?W ! 0)) =
         Some \<lparr>session_id = Some tok,
               created_at = created_at \<lparr>session_id = None, created_at = 0, last_active_at = 0,
                                       message_count = 0\<rparr>,
               last_active_at = clock ?W + ticks pre,
               message_count = messageCount (heap ?W ! 0) + 1\<rparr>"
    by blast
  have "sdkSessionId (heap ?V ! 0) = Some ''abc''
     \<and> db ?V (id' (heap ?W ! 0)) =
         Some \<lparr>session_id = Some ''abc'',
               created_at = created_at \<lparr>session_id = None, created_at = 0, last_active_at = 0,
                                       message_count = 0\<rparr>,
               last_active_at = clock ?W + ticks [Tick 3],
               message_count = messageCount (heap ?W ! 0) + 1\<rparr>"
    by (rule A [of "[Tick 3]" "''abc''"
          "[Open (1, ''s1''), Tick 2, Yield 1 (Assistant (Str ''hi'')), Close (1, ''s1'')]"])
       (simp_all add: h(8) busy_turn_def)
  with c1 c2 h(5,7,9) have "queryPromise (heap ?V ! 0) = None \<and> messageCount (heap ?V ! 0) = 2
     \<and> sdkSessionId (heap ?V ! 0) = Some ''abc''
     \<and> db ?V ''s1'' =
       Some \<lparr>session_id = Some ''abc'', created_at = 0, last_active_at = 3,
             message_count = 2\<rparr>"
    by simp
  with h r(2) u show ?thesis by simp
qed

text \<open>
  C2 as stated fails: a first turn whose engine throws at once ends with a message count
  of 1 at time 10, and the row still holds count 0 and time 0.
\<close>

theorem failed_turn_leaves_row_stale_counterexample:
  "run failed_first_turn init_world \<noteq> None
   \<and> queryPromise (heap (the (run failed_first_turn init_world)) ! 0) = None
   \<and> messageCount (heap (the (run failed_first_turn init_world)) ! 0) = 1
   \<and> clock (the (run failed_first_turn init_world)) = 10
   \<and> db (the (run failed_first_turn init_world)) ''s1'' =
       Some \<lparr>session_id = None, created_at = 0, last_active_at = 0, message_count = 0\<rparr>"
  by (simp add: failed_first_turn_def model_defs)

section \<open>Eviction\<close>

lemma close_timers:
  "sessions w (snd c) = Some a \<Longrightarrow>
   timers (websocket_close c w) =
     (if set (subscribers (heap w ! a)) \<subseteq> {c}
      then timers w @ [(clock w + 60000, a, snd c)] else timers w)"
  by (auto simp: websocket_close_def unsubscribe_def hasSubscribers_def
      removeAll_filter_not_eq filter_empty_conv)

lemma timers_only_grow:
  assumes "step x w = Some w'" and "\<forall>k. x \<noteq> Fire k"
  shows "\<exists>ts. timers w' = timers w @ ts"
proof (cases x)
  case (Open c)
  with assms show ?thesis
    by (auto simp: websocket_open_def on_session_def split: option.splits)
next
  case (Incoming c d)
  with assms show ?thesis
    by (auto simp: websocket_message_def unicast_def addUserMessage_def start_turn_def
        split: option.splits data.splits)
next
  case (Close c)
  with assms show ?thesis
    by (auto simp: websocket_close_def split: option.splits)
next
  case (Yield q m)
  with assms show ?thesis
    by (auto simp: stream_yield_def on_message_def capture_init_def on_session_def
        split: if_splits sdk_message.splits)
next
  case (Throw q err)
  with assms show ?thesis
    by (auto simp: stream_throw_def settle_def on_session_def split: if_splits)
next
  case (End q)
  with assms show ?thesis
    by (auto simp: stream_end_def settle_def split: if_splits)
next
  case (Resume k)
  with assms show ?thesis
    by (auto simp: resume_call_def start_turn_def split: if_splits call.splits)
qed (use assms in auto)

lemma fire_effect:
  assumes "k < length (timers w)" and "timers w ! k = (due, b, i)" and "b < length (heap w)"
  shows "clock w < due \<Longrightarrow> step (Fire k) w = None"
    and "due \<le> clock w \<Longrightarrow>
      \<exists>w'. step (Fire k) w = Some w'
        \<and> timers w' = take k (timers w) @ drop (Suc k) (timers w)
        \<and> engine w' = engine w \<and> db w' = db w
        \<and> bookkeeping (heap w' ! b) = bookkeeping (heap w ! b)
        \<and> (hasSubscribers (heap w ! b) \<longrightarrow> sessions w' = sessions w \<and> heap w' = heap w)
        \<and> (\<not> hasSubscribers (heap w ! b) \<longrightarrow>
              subscribers (heap w' ! b) = []
              \<and> (sessions w i = Some b \<longrightarrow> sessions w' = (sessions w)(i := None)))"
  using assms by (auto simp: timer_fire_def cleanup_def bookkeeping_def)


text \<open>
  C4, as amended. When a close leaves a registered coordinator without subscribers, a
  timer due 60 seconds later is started for it, and otherwise none; no step other than
  the firing of a timer removes a timer, so a new subscription cancels nothing. A timer
  does not fire before it is due. When it fires it is removed, and the coordinator it
  captured is tested: if that coordinator has a subscriber, registry and coordinators
  stay as they are; if it has none, its subscriber set is cleared and, where the
  registry maps the captured id to it, that entry is removed. In both cases the query
  state of the coordinator (in-flight promise, token, message count), the engine
  invocations and the database are left as they are.
\<close>

theorem eviction_rechecks_at_fire_time:
  "(sessions w (snd c) = Some a \<longrightarrow>
      timers (websocket_close c w) =
        (if set (subscribers (heap w ! a)) \<subseteq> {c}
         then timers w @ [(clock w + 60000, a, snd c)] else timers w))
   \<and> (step x w = Some v \<and> (\<forall>k. x \<noteq> Fire k) \<longrightarrow> (\<exists>ts. timers v = timers w @ ts))
   \<and> (k < length (timers w) \<and> timers w ! k = (due, b, i) \<and> b < length (heap w) \<longrightarrow>
        (clock w < due \<longrightarrow> step (Fire k) w = None)
      \<and> (due \<le> clock w \<longrightarrow>
          (\<exists>w'. step (Fire k) w = Some w'
            \<and> timers w' = take k (timers w) @ drop (Suc k) (timers w)
            \<and> engine w' = engine w \<and> db w' = db w
            \<and> bookkeeping (heap w' ! b) = bookkeeping (heap w ! b)
            \<and> (hasSubscribers (heap w ! b) \<longrightarrow> sessions w' = sessions w \<and> heap w' = heap w)
            \<and> (\<not> hasSubscribers (heap w ! b) \<longrightarrow>
                  subscribers (heap w' ! b) = []
                  \<and> (sessions w i = Some b \<longrightarrow> sessions w' = (sessions w)(i := None))))))"
  using close_timers [of w c a] timers_only_grow [of x w v] fire_effect [of k w due b i]
  by blast

text \<open>
  The scenario of the specification: the count of \<^verbatim>\<open>s1\<close> drops to zero at time 0, which
  starts a timer due at 60000; a subscriber joins at 59000 and the timer stays; when it
  fires at 61000 the coordinator for \<^verbatim>\<open>s1\<close> is still registered.
\<close>

theorem eviction_rechecks_at_fire_time_witness:
  "sessions (the (run first_connection init_world)) (snd (0::nat, ''s1'')) = Some 0
   \<and> timers (websocket_close (0, ''s1'') (the (run first_connection init_world))) =
       [(60000, 0, ''s1'')]
   \<and> step (Open (1, ''s1'')) (the (run closed_and_waiting init_world)) =
       Some (websocket_open (1, ''s1'') (the (run closed_and_waiting init_world)))
   \<and> timers (the (run closed_and_waiting init_world)) = [(60000, 0, ''s1'')]
   \<and> timers (websocket_open (1, ''s1'') (the (run closed_and_waiting init_world))) =
       [(60000, 0, ''s1'')]
   \<and> timers (the (run before_fire init_world)) ! 0 = (60000, 0, ''s1'')
   \<and> 0 < length (heap (the (run before_fire init_world)))
   \<and> clock (the (run before_fire init_world)) = 61000
   \<and> hasSubscribers (heap (the (run before_fire init_world)) ! 0)
   \<and> (\<exists>w'. step (Fire 0) (the (run before_fire init_world)) = Some w'
        \<and> timers w' = [] \<and> sessions w' ''s1'' = Some 0)"
proof -
  let ?V = "the (run first_connection init_world)"
  let ?U = "the (run closed_and_waiting init_world)"
  let ?W = "the (run before_fire init_world)"
  have v: "sessions ?V (snd (0::nat, ''s1'')) = Some 0" "subscribers (heap ?V ! 0) = [(0, ''s1'')]"
    "timers ?V = []" "clock ?V = 0"
    by (simp_all add: first_connection_def model_defs)
  have u: "timers ?U = [(60000, 0, ''s1'')]"
    "step (Open (1, ''s1'')) ?U = Some (websocket_open (1, ''s1'') ?U)"
    by (simp_all add: closed_and_waiting_def model_defs)
  have w: "timers ?W = [(60000, 0, ''s1'')]" "0 < length (heap ?W)" "clock ?W = 61000"
    "hasSubscribers (heap ?W ! 0)" "sessions ?W ''s1'' = Some 0"
    by (simp_all add: before_fire_def closed_and_waiting_def model_defs)
  from eviction_rechecks_at_fire_time [where w = ?V and c = "(0, ''s1'')" and a = 0 and x = "Tick 0" and v = ?V
        and k = 0 and due = 0 and b = 0 and i = "''s1''"] v
  have 1: "timers (websocket_close (0, ''s1'') ?V) = [(60000, 0, ''s1'')]"
    by auto
  from eviction_rechecks_at_fire_time [where w = ?U and c = "(0, ''s1'')" and a = 0 and x = "Open (1, ''s1'')"
        and v = "websocket_open (1, ''s1'') ?U" and k = 0 and due = 0 and b = 0 and i = "''s1''"] u
  obtain ts where ts: "timers (websocket_open (1, ''s1'') ?U) = [(60000, 0, ''s1'')] @ ts"
    by auto
  have "timers (websocket_open (1, ''s1'') ?U) = timers ?U"
    by (simp add: websocket_open_def on_session_def split: option.split)
  with ts u have 2: "timers (websocket_open (1, ''s1'') ?U) = [(60000, 0, ''s1'')]"
    by simp
  from eviction_rechecks_at_fire_time [where w = ?W and k = 0 and due = 60000 and b = 0 and i = "''s1''"
        and c = "(1, ''s1'')" and a = 0 and x = "Tick 0" and v = ?W] w
  have 3: "\<exists>w'. step (Fire 0) ?W = Some w' \<and> timers w' = [] \<and> sessions w' ''s1'' = Some 0"
    by auto
  from 1 2 3 v u w show ?thesis by simp
qed


text \<open>
  C4 as stated fails: the coordinator evicted during its turn keeps its promise, its
  invocation stays in flight, and the \<^verbatim>\<open>init\<close> message that arrives after the eviction is
  still captured and written to the row.
\<close>

theorem eviction_keeps_query_state_counterexample:
  "run evicted_during_turn init_world \<noteq> None
   \<and> sessions (the (run evicted_during_turn init_world)) ''s1'' = None
   \<and> in_flight (the (run evicted_during_turn init_world)) 0
   \<and> owner (engine (the (run evicted_during_turn init_world)) ! 0) = 0
   \<and> queryPromise (heap (the (run evicted_during_turn init_world)) ! 0) = Some 0
   \<and> messageCount (heap (the (run evicted_during_turn init_world)) ! 0) = 1
   \<and> sdkSessionId (heap (the (run evicted_during_turn init_world)) ! 0) = Some ''abc''
   \<and> db (the (run evicted_during_turn init_world)) ''s1'' =
       Some \<lparr>session_id = Some ''abc'', created_at = 0, last_active_at = 60000,
             message_count = 1\<rparr>"
  by (simp add: evicted_during_turn_def model_defs)

text \<open>
  A timer whose coordinator has already been evicted by an earlier timer still deletes
  the registry entry of the id it captured: here the entry of a new coordinator for
  \<^verbatim>\<open>s1\<close> that has a subscriber.
\<close>

lemma stale_timer_evicts_live_coordinator:
  "run stale_timer init_world \<noteq> None
   \<and> sessions (the (run stale_timer init_world)) ''s1'' = None
   \<and> subscribers (heap (the (run stale_timer init_world)) ! 1) = [(2, ''s1'')]
   \<and> clock (the (run stale_timer init_world)) = 60001"
  by (simp add: stale_timer_def model_defs)


section \<open>Reset and the next turn\<close>

lemma heap_length_mono:
  assumes "step x w = Some w'"
  shows "length (heap w) \<le> length (heap w')"
proof (cases x)
  case (Open c)
  with assms show ?thesis
    by (auto simp: websocket_open_def on_session_def split: option.splits)
next
  case (Incoming c d)
  with assms show ?thesis
    by (auto simp: websocket_message_def unicast_def addUserMessage_def start_turn_def
        split: option.splits data.splits)
next
  case (Close c)
  with assms show ?thesis
    by (auto simp: websocket_close_def split: option.splits)
next
  case (Fire k)
  with assms show ?thesis
    by (auto simp: timer_fire_def split: if_splits prod.splits)
next
  case (Yield q m)
  with assms show ?thesis
    by (auto simp: stream_yield_def on_message_frame split: if_splits)
next
  case (Throw q err)
  with assms show ?thesis
    by (auto simp: stream_throw_def settle_def split: if_splits)
next
  case (End q)
  with assms show ?thesis
    by (auto simp: stream_end_def settle_def split: if_splits)
next
  case (Resume k)
  with assms show ?thesis
    by (auto simp: resume_call_def start_turn_def split: if_splits call.splits)
qed (use assms in auto)

lemma reset_frame_effect:
  assumes "sessions w (snd c) = Some a" and "a < length (heap w)"
  shows "queryPromise (heap (websocket_message c Reset_data w) ! a) = None"
    and "messageCount (heap (websocket_message c Reset_data w) ! a) = 0"
    and "sdkSessionId (heap (websocket_message c Reset_data w) ! a) = None"
    and "engine (websocket_message c Reset_data w) = engine w"
    and "length (heap (websocket_message c Reset_data w)) = length (heap w)"
  using assms
  by (simp_all add: websocket_message_def unicast_def reset_def split: option.split)

lemma token_stays_none:
  assumes "step x w = Some w'" and "a < length (heap w)"
    and "sdkSessionId (heap w ! a) = None"
    and "case x of Yield q m \<Rightarrow> init_token m = None \<or> owner (engine w ! q) \<noteq> a | _ \<Rightarrow> True"
  shows "sdkSessionId (heap w' ! a) = None"
proof (rule ccontr)
  assume n: "sdkSessionId (heap w' ! a) \<noteq> None"
  with assms(3) have "sdkSessionId (heap w' ! a) \<noteq> sdkSessionId (heap w ! a)" by simp
  from token_step [OF assms(1,2) this] show False
  proof
    assume "\<exists>q tok. x = Yield q (System ''init'' tok) \<and> in_flight w q \<and> owner (engine w ! q) = a"
    with assms(4) show False by auto
  next
    assume "\<exists>c. x = Incoming c Reset_data \<and> sessions w (snd c) = Some a"
    then obtain c where "x = Incoming c Reset_data" "sessions w (snd c) = Some a" by blast
    with assms(1,2) n reset_frame_effect(3) [of w c a] show False by simp
  qed
qed

lemma token_none_run:
  assumes "run xs w = Some v" and "no_init_for a xs w" and "a < length (heap w)"
    and "sdkSessionId (heap w ! a) = None"
  shows "sdkSessionId (heap v ! a) = None \<and> a < length (heap v)"
  using assms
proof (induction xs arbitrary: w)
  case Nil
  then show ?case by simp
next
  case (Cons x xs)
  from Cons.prems(1) obtain w' where s: "step x w = Some w'" "run xs w' = Some v"
    by (auto split: option.splits)
  from Cons.prems(2) s have n: "no_init_for a xs w'"
    "case x of Yield q m \<Rightarrow> init_token m = None \<or> owner (engine w ! q) \<noteq> a | _ \<Rightarrow> True"
    by simp_all
  from token_stays_none [OF s(1) Cons.prems(3,4) n(2)] heap_length_mono [OF s(1)] Cons.prems(3)
  have "sdkSessionId (heap w' ! a) = None" "a < length (heap w')" by simp_all
  from Cons.IH [OF s(2) n(1) this(2,1)] show ?case .
qed

text \<open>
  C6, as amended. The reset frame clears the continuation token, the message count and
  the in-flight promise of the coordinator at once, whether or not a query is in
  flight, and leaves every engine invocation as it is (nothing is cancelled). As long
  as no \<^verbatim>\<open>init\<close> message of an invocation of this coordinator is processed after the
  reset, the token stays cleared, and a message frame that finds the coordinator idle
  (as it is right after the reset) starts an engine invocation without a resume
  directive.
\<close>

theorem reset_then_fresh_turn:
  assumes "sessions w (snd c) = Some a" and "a < length (heap w)"
    and "run xs (websocket_message c Reset_data w) = Some v"
    and "no_init_for a xs (websocket_message c Reset_data w)"
    and "sessions v (snd c') = Some a"
  shows "queryPromise (heap (websocket_message c Reset_data w) ! a) = None
     \<and> messageCount (heap (websocket_message c Reset_data w) ! a) = 0
     \<and> sdkSessionId (heap (websocket_message c Reset_data w) ! a) = None
     \<and> engine (websocket_message c Reset_data w) = engine w
     \<and> sdkSessionId (heap v ! a) = None
     \<and> (xs = [] \<or> queryPromise (heap v ! a) = None \<longrightarrow>
          (\<exists>v'. step (Incoming c' (Message_data msg)) v = Some v'
             \<and> in_flight v' (length (engine v))
             \<and> owner (engine v' ! length (engine v)) = a
             \<and> prompt (engine v' ! length (engine v)) = msg
             \<and> resume (engine v' ! length (engine v)) = None))"
proof -
  let ?r = "websocket_message c Reset_data w"
  note r = reset_frame_effect [OF assms(1,2)]
  from token_none_run [OF assms(3,4)] r assms(2)
  have t: "sdkSessionId (heap v ! a) = None" "a < length (heap v)" by simp_all
  have "\<exists>v'. step (Incoming c' (Message_data msg)) v = Some v'
             \<and> in_flight v' (length (engine v))
             \<and> owner (engine v' ! length (engine v)) = a
             \<and> prompt (engine v' ! length (engine v)) = msg
             \<and> resume (engine v' ! length (engine v)) = None"
    if "queryPromise (heap v ! a) = None"
    using that t assms(5)
    by (simp add: websocket_message_def addUserMessage_def start_turn_def in_flight_def
        query_options_def)
  moreover have "queryPromise (heap v ! a) = None" if "xs = []"
    using that assms(3) r(1) by simp
  ultimately show ?thesis using r t by blast
qed

text \<open>
  A reset during the first turn of \<^verbatim>\<open>s1\<close>, a late assistant message of that turn, and a
  second message: invocation 1 starts without resume while invocation 0 is in flight.
\<close>

theorem reset_then_fresh_turn_witness:
  "sessions (the (run first_message init_world)) (snd (0::nat, ''s1'')) = Some 0
   \<and> 0 < length (heap (the (run first_message init_world)))
   \<and> in_flight (the (run first_message init_world)) 0
   \<and> run late_message
        (websocket_message (0, ''s1'') Reset_data (the (run first_message init_world))) \<noteq> None
   \<and> no_init_for 0 late_message
        (websocket_message (0, ''s1'') Reset_data (the (run first_message init_world)))
   \<and> in_flight (the (run late_message
        (websocket_message (0, ''s1'') Reset_data (the (run first_message init_world))))) 0
   \<and> (\<exists>v'. step (Incoming (0, ''s1'') (Message_data ''second''))
               (the (run late_message
                  (websocket_message (0, ''s1'') Reset_data (the (run first_message init_world)))))
             = Some v'
        \<and> in_flight v' 1 \<and> prompt (engine v' ! 1) = ''second'' \<and> resume (engine v' ! 1) = None)"
proof -
  let ?W = "the (run first_message init_world)"
  let ?R = "websocket_message (0, ''s1'') Reset_data ?W"
  let ?V = "the (run late_message ?R)"
  have h: "sessions ?W (snd (0::nat, ''s1'')) = Some 0" "0 < length (heap ?W)"
    "run late_message ?R = Some ?V" "no_init_for 0 late_message ?R"
    "sessions ?V (snd (0::nat, ''s1'')) = Some 0"
    by (simp_all add: first_message_def late_message_def model_defs)
  have e: "in_flight ?W 0" "in_flight ?V 0" "length (engine ?V) = 1"
    "queryPromise (heap ?V ! 0) = None" "run late_message ?R \<noteq> None"
    by (simp_all add: first_message_def late_message_def model_defs)
  from reset_then_fresh_turn [OF h, of "''second''"] e(3,4)
  have "\<exists>v'. step (Incoming (0, ''s1'') (Message_data ''second'')) ?V = Some v'
        \<and> in_flight v' 1 \<and> prompt (engine v' ! 1) = ''second'' \<and> resume (engine v' ! 1) = None"
    by simp
  with h e show ?thesis by blast
qed


text \<open>
  C6 as stated fails: the \<^verbatim>\<open>init\<close> message of the detached first turn arrives after the
  reset and is captured, and the next message resumes the SDK session \<^verbatim>\<open>abc\<close>.
\<close>

theorem reset_during_turn_counterexample:
  "run reset_during_turn init_world \<noteq> None
   \<and> in_flight (the (run reset_during_turn init_world)) 1
   \<and> prompt (engine (the (run reset_during_turn init_world)) ! 1) = ''second''
   \<and> resume (engine (the (run reset_during_turn init_world)) ! 1) = Some ''abc''"
  by (simp add: reset_during_turn_def model_defs)


section \<open>Serialization of turns\<close>






















text \<open>
  Without any reset: the second and the third call both wait for the first promise, and
  after it has settled each of them starts its own invocation without looking at
  \<^verbatim>\<open>queryPromise\<close> again.
\<close>

lemma three_callers_overlap:
  "run three_callers init_world \<noteq> None
   \<and> in_flight (the (run three_callers init_world)) 1
   \<and> in_flight (the (run three_callers init_world)) 2
   \<and> owner (engine (the (run three_callers init_world)) ! 1) = 0
   \<and> owner (engine (the (run three_callers init_world)) ! 2) = 0
   \<and> length (flights (the (run three_callers init_world)) 0) = 2"
  by (simp add: three_callers_def flights_def model_defs)

end
